theory Spec2Isabelle
  imports Main
begin

section \<open>Conventions\<close>

text \<open>
  A JavaScript string is modelled as a \<^typ>\<open>string\<close>: a list of code units, here
  restricted to the 8-bit range, so \<open>length\<close> is the source's \<open>.length\<close>.
  JavaScript numbers that only ever hold integers in the source (counters, millisecond
  timestamps, lengths) are \<^typ>\<open>int\<close> or \<^typ>\<open>nat\<close>. Every call of \<open>Date.now()\<close>
  is an explicit argument of the function that makes it.
\<close>

section \<open>Admission controller: \<open>src/lib/rateLimit.ts\<close>\<close>

subsection \<open>Definitions\<close>

record rl_record =
  count :: int
  resetTime :: int

text \<open>The class \<open>RateLimiter\<close>: its store (an object keyed by identifier) and its two
  configuration fields.\<close>

record RateLimiter =
  store :: "string \<rightharpoonup> rl_record"
  maxRequests :: int
  windowMs :: int


text \<open>\<open>isAllowed(identifier)\<close>; \<open>now\<close> is the value \<open>Date.now()\<close> returns in the call.
  The result is the returned boolean and the limiter after the call.\<close>

definition isAllowed :: "int \<Rightarrow> string \<Rightarrow> RateLimiter \<Rightarrow> bool \<times> RateLimiter" where
  "isAllowed now identifier L =
     (case store L identifier of
        None \<Rightarrow>
          (True, L\<lparr>store := (store L)(identifier \<mapsto> \<lparr>count = 1, resetTime = now + windowMs L\<rparr>)\<rparr>)
      | Some record \<Rightarrow>
          if now > resetTime record then
            (True, L\<lparr>store := (store L)(identifier \<mapsto> \<lparr>count = 1, resetTime = now + windowMs L\<rparr>)\<rparr>)
          else if count record < maxRequests L then
            (True, L\<lparr>store := (store L)(identifier \<mapsto> record\<lparr>count := count record + 1\<rparr>)\<rparr>)
          else (False, L))"


text \<open>\<open>cleanup()\<close> deletes every key whose window has expired.\<close>

definition cleanup :: "int \<Rightarrow> RateLimiter \<Rightarrow> RateLimiter" where
  "cleanup now L =
     L\<lparr>store := (\<lambda>key. case store L key of
                     None \<Rightarrow> None
                   | Some record \<Rightarrow> if now > resetTime record then None else Some record)\<rparr>"

definition reset :: "string \<Rightarrow> RateLimiter \<Rightarrow> RateLimiter" where
  "reset identifier L = L\<lparr>store := (store L)(identifier := None)\<rparr>"






text \<open>The operations of the class, for the reachable states of a limiter.\<close>

datatype rl_op =
    OpIsAllowed int string
  | OpGetInfo int string
  | OpCleanup int
  | OpReset string

fun rl_step :: "RateLimiter \<Rightarrow> rl_op \<Rightarrow> RateLimiter" where
  "rl_step L (OpIsAllowed now identifier) = snd (isAllowed now identifier L)"
| "rl_step L (OpGetInfo now identifier) = L"
| "rl_step L (OpCleanup now) = cleanup now L"
| "rl_step L (OpReset identifier) = reset identifier L"



subsection \<open>Properties\<close>


lemma isAllowed_config [simp]:
  "maxRequests (snd (isAllowed now identifier L)) = maxRequests L"
  "windowMs (snd (isAllowed now identifier L)) = windowMs L"
  by (simp_all add: isAllowed_def split: option.splits)












lemma rl_step_config [simp]: "maxRequests (rl_step L op) = maxRequests L"
  by (cases op) (simp_all add: cleanup_def reset_def)


lemma rl_fold_config [simp]: "maxRequests (foldl rl_step L ops) = maxRequests L"
  by (induction ops arbitrary: L) simp_all





section \<open>JavaScript strings and regular expressions\<close>

subsection \<open>String helpers\<close>

definition code_unit :: "char \<Rightarrow> nat" where
  "code_unit c = of_char c"

text \<open>White space and line terminators, as \<open>String.prototype.trim\<close> strips them (the
  code units below 256 among them).\<close>

definition is_ws :: "char \<Rightarrow> bool" where
  "is_ws c \<longleftrightarrow> code_unit c \<in> {9, 10, 11, 12, 13, 32, 160}"

definition trim :: "string \<Rightarrow> string" where
  "trim s = rev (dropWhile is_ws (rev (dropWhile is_ws s)))"

fun startsWith :: "string \<Rightarrow> string \<Rightarrow> bool" where
  "startsWith s [] = True"
| "startsWith [] (p # ps) = False"
| "startsWith (c # cs) (p # ps) = (c = p \<and> startsWith cs ps)"

text \<open>\<open>s.includes(needle)\<close>.\<close>

fun js_includes :: "string \<Rightarrow> string \<Rightarrow> bool" where
  "js_includes [] needle = (needle = [])"
| "js_includes (c # cs) needle = (startsWith (c # cs) needle \<or> js_includes cs needle)"

text \<open>\<open>parts.join(sep)\<close> on an array of strings.\<close>

fun js_join :: "string \<Rightarrow> string list \<Rightarrow> string" where
  "js_join sep [] = []"
| "js_join sep [x] = x"
| "js_join sep (x # y # ys) = x @ sep @ js_join sep (y # ys)"

subsection \<open>A backtracking matcher for the regular expressions of the source\<close>

text \<open>
  The constructs that occur in the regular expressions of the repository. \<open>Lit\<close> is a
  sequence of literal characters, \<open>Cls\<close> a character class given by its ranges, \<open>Dot\<close>
  is \<open>.\<close>, \<open>Bol\<close> and \<open>Eol\<close> are \<open>^\<close> and \<open>$\<close> (without the \<open>m\<close> flag), \<open>Opt r\<close> is
  \<open>r?\<close>, \<open>Star r\<close> is \<open>r*\<close>, \<open>Rep n r\<close> is \<open>r{n}\<close>, and \<open>Grp r\<close> is the capturing
  group (no expression of the source has more than one).
\<close>

datatype regex =
    Chr char
  | Lit string
  | Cls "(char \<times> char) list"
  | Dot
  | Bol
  | Eol
  | Seq regex regex
  | Alt regex regex
  | Opt regex
  | Star regex
  | Rep nat regex
  | Grp regex

primrec rsize :: "regex \<Rightarrow> nat" where
  "rsize (Chr a) = 1"
| "rsize (Lit l) = 1"
| "rsize (Cls rs) = 1"
| "rsize Dot = 1"
| "rsize Bol = 1"
| "rsize Eol = 1"
| "rsize (Seq r1 r2) = Suc (rsize r1 + rsize r2)"
| "rsize (Alt r1 r2) = Suc (rsize r1 + rsize r2)"
| "rsize (Opt r) = Suc (rsize r)"
| "rsize (Star r) = Suc (rsize r)"
| "rsize (Rep n r) = Suc (n + rsize r)"
| "rsize (Grp r) = Suc (rsize r)"

text \<open>A matcher state: the position in the input, the input that remains from there,
  and the text captured by the group so far.\<close>

type_synonym mstate = "nat \<times> string \<times> string option"

text \<open>Case-insensitive comparison (flag \<open>i\<close>) compares canonical code units: lower-case
  letters are mapped to their upper-case counterparts.\<close>

definition canonical :: "char \<Rightarrow> nat" where
  "canonical c =
     (let n = code_unit c
      in if (97 \<le> n \<and> n \<le> 122) \<or> (224 \<le> n \<and> n \<le> 254 \<and> n \<noteq> 247) then n - 32 else n)"

definition chr_eq :: "bool \<Rightarrow> char \<Rightarrow> char \<Rightarrow> bool" where
  "chr_eq ic a b = (if ic then canonical a = canonical b else a = b)"

definition in_class :: "(char \<times> char) list \<Rightarrow> char \<Rightarrow> bool" where
  "in_class rs c = list_ex (\<lambda>(lo, hi). code_unit lo \<le> code_unit c \<and> code_unit c \<le> code_unit hi) rs"

definition line_terminator :: "char \<Rightarrow> bool" where
  "line_terminator c \<longleftrightarrow> code_unit c \<in> {10, 13}"

fun lit_rest :: "bool \<Rightarrow> string \<Rightarrow> string \<Rightarrow> string option" where
  "lit_rest ic [] s = Some s"
| "lit_rest ic (a # as) [] = None"
| "lit_rest ic (a # as) (c # cs) = (if chr_eq ic c a then lit_rest ic as cs else None)"

text \<open>
  \<open>ms ic r st\<close> lists the states in which a match of \<open>r\<close> that starts in state \<open>st\<close> can
  end, in the order in which a backtracking matcher tries them (greedy quantifiers take
  the longer match first). \<open>ic\<close> is the flag \<open>i\<close>. An iteration of \<open>Star\<close> that consumes
  nothing is not repeated.
\<close>

function (sequential) ms :: "bool \<Rightarrow> regex \<Rightarrow> mstate \<Rightarrow> mstate list" where
  "ms ic (Chr a) (p, s, g) =
     (case s of [] \<Rightarrow> [] | c # cs \<Rightarrow> if chr_eq ic c a then [(Suc p, cs, g)] else [])"
| "ms ic (Lit l) (p, s, g) =
     (case lit_rest ic l s of None \<Rightarrow> [] | Some s' \<Rightarrow> [(p + length l, s', g)])"
| "ms ic (Cls rs) (p, s, g) =
     (case s of [] \<Rightarrow> [] | c # cs \<Rightarrow> if in_class rs c then [(Suc p, cs, g)] else [])"
| "ms ic Dot (p, s, g) =
     (case s of [] \<Rightarrow> [] | c # cs \<Rightarrow> if line_terminator c then [] else [(Suc p, cs, g)])"
| "ms ic Bol (p, s, g) = (if p = 0 then [(p, s, g)] else [])"
| "ms ic Eol (p, s, g) = (if s = [] then [(p, s, g)] else [])"
| "ms ic (Seq r1 r2) st = concat (map (ms ic r2) (ms ic r1 st))"
| "ms ic (Alt r1 r2) st = ms ic r1 st @ ms ic r2 st"
| "ms ic (Opt r) st = ms ic r st @ [st]"
| "ms ic (Star r) (p, s, g) =
     concat (map (\<lambda>st'. if length (fst (snd st')) < length s then ms ic (Star r) st' else [])
                 (ms ic r (p, s, g))) @ [(p, s, g)]"
| "ms ic (Rep 0 r) st = [st]"
| "ms ic (Rep (Suc n) r) st = concat (map (ms ic (Rep n r)) (ms ic r st))"
| "ms ic (Grp r) (p, s, g) =
     map (\<lambda>(p', s', g'). (p', s', Some (take (p' - p) s))) (ms ic r (p, s, g))"
  by pat_completeness auto
termination
  by (relation "measures [\<lambda>(ic, r, st). rsize r, \<lambda>(ic, r, st). length (fst (snd st))]") auto

text \<open>The search for the leftmost match: the start positions are tried from left to
  right, and at each one the first way to match wins.\<close>

fun exec_from :: "bool \<Rightarrow> regex \<Rightarrow> nat \<Rightarrow> string \<Rightarrow> mstate option" where
  "exec_from ic r p [] =
     (case ms ic r (p, [], None) of st # sts \<Rightarrow> Some st | [] \<Rightarrow> None)"
| "exec_from ic r p (c # cs) =
     (case ms ic r (p, c # cs, None) of st # sts \<Rightarrow> Some st | [] \<Rightarrow> exec_from ic r (Suc p) cs)"

text \<open>\<open>pattern.test(s)\<close>.\<close>

definition re_test :: "bool \<Rightarrow> regex \<Rightarrow> string \<Rightarrow> bool" where
  "re_test ic r s = (exec_from ic r 0 s \<noteq> None)"

section \<open>Sanitizing: \<open>src/lib/sanitize.ts\<close>\<close>

subsection \<open>Definitions\<close>

definition htmlEscape :: "char \<Rightarrow> string" where
  "htmlEscape c =
     (if c = CHR ''&'' then ''&amp;''
      else if c = CHR ''<'' then ''&lt;''
      else if c = CHR ''>'' then ''&gt;''
      else if c = CHR 0x22 then ''&quot;''
      else if c = CHR 0x27 then ''&#x27;''
      else if c = CHR ''/'' then ''&#x2F;''
      else [c])"

definition sanitizeHTML :: "string \<Rightarrow> string" where
  "sanitizeHTML str = concat (map htmlEscape str)"

definition truncate_str :: "string \<Rightarrow> nat \<Rightarrow> string" where
  "truncate_str str maxLength = (if length str \<le> maxLength then str else take maxLength str @ ''...'')"

text \<open>A thrown value: an \<open>Error\<close> object with its \<open>name\<close> and \<open>message\<close> (both strings), a
  thrown string, or \<open>null\<close>/\<open>undefined\<close>.\<close>

datatype js_error = JsError string string | JsThrown string | JsNullish

text \<open>\<open>error?.message || error?.toString?.() || "An error occurred"\<close>; the \<open>toString\<close> of
  an \<open>Error\<close> is \<open>name: message\<close>, or whichever of the two is not empty.\<close>

fun errorMessage :: "js_error \<Rightarrow> string" where
  "errorMessage (JsError name message) =
     (if message \<noteq> [] then message
      else if name \<noteq> [] then name
      else ''An error occurred'')"
| "errorMessage (JsThrown s) = (if s \<noteq> [] then s else ''An error occurred'')"
| "errorMessage JsNullish = ''An error occurred''"

text \<open>The six \<open>safeErrorPatterns\<close>, all with the flag \<open>i\<close>.\<close>

definition safeErrorPatterns :: "regex list" where
  "safeErrorPatterns =
     [Lit ''rate limit'',
      Lit ''validation error'',
      Seq (Lit ''invalid '') (Grp (Alt (Lit ''url'') (Alt (Lit ''youtube'') (Lit ''video'')))),
      Lit ''not found'',
      Lit ''timeout'',
      Seq (Lit ''too '') (Grp (Alt (Lit ''long'') (Alt (Lit ''large'') (Lit ''many''))))]"

definition genericErrorMessage :: string where
  "genericErrorMessage = ''An unexpected error occurred. Please try again later.''"

definition matchesSafePattern :: "string \<Rightarrow> bool" where
  "matchesSafePattern m = list_ex (\<lambda>pattern. re_test True pattern m) safeErrorPatterns"

definition sanitizeErrorMessage :: "js_error \<Rightarrow> string" where
  "sanitizeErrorMessage error =
     (if matchesSafePattern (errorMessage error) then sanitizeHTML (errorMessage error)
      else genericErrorMessage)"

subsection \<open>Escaping is injective and leaves no markup character\<close>

lemma htmlEscape_cases:
  "htmlEscape c = [c] \<and> c \<notin> {CHR ''&'', CHR ''<'', CHR ''>'', CHR 0x22, CHR 0x27, CHR ''/''} \<or>
   c = CHR ''&'' \<and> htmlEscape c = ''&amp;'' \<or>
   c = CHR ''<'' \<and> htmlEscape c = ''&lt;'' \<or>
   c = CHR ''>'' \<and> htmlEscape c = ''&gt;'' \<or>
   c = CHR 0x22 \<and> htmlEscape c = ''&quot;'' \<or>
   c = CHR 0x27 \<and> htmlEscape c = ''&#x27;'' \<or>
   c = CHR ''/'' \<and> htmlEscape c = ''&#x2F;''"
  by (simp add: htmlEscape_def)

lemma sanitizeHTML_Nil [simp]: "sanitizeHTML [] = []"
  by (simp add: sanitizeHTML_def)

lemma sanitizeHTML_Cons: "sanitizeHTML (c # s) = htmlEscape c @ sanitizeHTML s"
  by (simp add: sanitizeHTML_def)

lemma htmlEscape_nonempty: "htmlEscape c \<noteq> []"
  by (simp add: htmlEscape_def)

lemma htmlEscape_inj_step:
  assumes "htmlEscape a @ u = htmlEscape b @ v"
  shows "a = b \<and> u = v"
  using htmlEscape_cases [of a] htmlEscape_cases [of b] assms
  by (elim disjE conjE) simp_all

lemma sanitizeHTML_inj: "sanitizeHTML s = sanitizeHTML t \<Longrightarrow> s = t"
proof (induction s arbitrary: t)
  case Nil
  then show ?case
    by (cases t) (simp_all add: sanitizeHTML_Cons htmlEscape_nonempty)
next
  case (Cons a s)
  show ?case
  proof (cases t)
    case Nil
    with Cons.prems show ?thesis
      by (simp add: sanitizeHTML_Cons htmlEscape_nonempty)
  next
    case (Cons b t')
    with Cons.prems have "htmlEscape a @ sanitizeHTML s = htmlEscape b @ sanitizeHTML t'"
      by (simp add: sanitizeHTML_Cons)
    then have "a = b \<and> sanitizeHTML s = sanitizeHTML t'"
      by (rule htmlEscape_inj_step)
    with Cons.IH Cons show ?thesis by simp
  qed
qed

lemma sanitizeHTML_eq_iff [simp]: "sanitizeHTML s = sanitizeHTML t \<longleftrightarrow> s = t"
  using sanitizeHTML_inj by blast





section \<open>The streaming endpoint: \<open>pages/api/ask.ts\<close>\<close>

subsection \<open>JSON values\<close>

datatype json =
    JNull
  | JBool bool
  | JNum int
  | JStr string
  | JArr "json list"
  | JObj "(string \<times> json) list"

fun show_nat :: "nat \<Rightarrow> string" where
  "show_nat n = (if n < 10 then [''0123456789'' ! n] else show_nat (n div 10) @ [''0123456789'' ! (n mod 10)])"

declare show_nat.simps [simp del]

definition show_int :: "int \<Rightarrow> string" where
  "show_int i = (if i < 0 then CHR ''-'' # show_nat (nat (- i)) else show_nat (nat i))"

text \<open>\<open>JSON.stringify\<close>.\<close>

definition json_escape :: "char \<Rightarrow> string" where
  "json_escape c =
     (let n = code_unit c
      in if n = 34 then [CHR 0x5C, CHR 0x22]
         else if n = 92 then [CHR 0x5C, CHR 0x5C]
         else if n = 8 then [CHR 0x5C, CHR ''b'']
         else if n = 12 then [CHR 0x5C, CHR ''f'']
         else if n = 10 then [CHR 0x5C, CHR ''n'']
         else if n = 13 then [CHR 0x5C, CHR ''r'']
         else if n = 9 then [CHR 0x5C, CHR ''t'']
         else if n < 32 then [CHR 0x5C, CHR ''u'', CHR ''0'', CHR ''0'',
                              ''0123456789abcdef'' ! (n div 16), ''0123456789abcdef'' ! (n mod 16)]
         else [c])"

definition json_quote :: "string \<Rightarrow> string" where
  "json_quote s = CHR 0x22 # concat (map json_escape s) @ [CHR 0x22]"

fun JSON_stringify :: "json \<Rightarrow> string" where
  "JSON_stringify JNull = ''null''"
| "JSON_stringify (JBool b) = (if b then ''true'' else ''false'')"
| "JSON_stringify (JNum n) = show_int n"
| "JSON_stringify (JStr s) = json_quote s"
| "JSON_stringify (JArr xs) = ''['' @ js_join '','' (map JSON_stringify xs) @ '']''"
| "JSON_stringify (JObj fs) =
     ''{'' @ js_join '','' (map (\<lambda>(k, v). json_quote k @ '':'' @ JSON_stringify v) fs) @ ''}''"

text \<open>\<open>String(v)\<close>; inside an array, \<open>null\<close> is rendered as the empty string.\<close>

fun js_String :: "json \<Rightarrow> string" where
  "js_String JNull = ''null''"
| "js_String (JBool b) = (if b then ''true'' else ''false'')"
| "js_String (JNum n) = show_int n"
| "js_String (JStr s) = s"
| "js_String (JArr xs) = js_join '','' (map (\<lambda>x. if x = JNull then [] else js_String x) xs)"
| "js_String (JObj fs) = ''[object Object]''"

fun truthy :: "json \<Rightarrow> bool" where
  "truthy JNull = False"
| "truthy (JBool b) = b"
| "truthy (JNum n) = (n \<noteq> 0)"
| "truthy (JStr s) = (s \<noteq> [])"
| "truthy (JArr xs) = True"
| "truthy (JObj fs) = True"


subsection \<open>Tool arguments: \<open>sanitizeObject\<close> and \<open>sanitizeToolArgs\<close>\<close>

fun sanitizeObject :: "nat \<Rightarrow> json \<Rightarrow> json" where
  "sanitizeObject 0 obj = JStr ''[Max depth reached]''"
| "sanitizeObject (Suc d) JNull = JNull"
| "sanitizeObject (Suc d) (JStr s) = JStr (sanitizeHTML s)"
| "sanitizeObject (Suc d) (JNum n) = JNum n"
| "sanitizeObject (Suc d) (JBool b) = JBool b"
| "sanitizeObject (Suc d) (JArr xs) = JArr (map (sanitizeObject d) xs)"
| "sanitizeObject (Suc d) (JObj fs) = JObj (map (\<lambda>(k, v). (sanitizeHTML k, sanitizeObject d v)) fs)"

definition sensitiveFields :: "string list" where
  "sensitiveFields = [''password'', ''token'', ''secret'', ''key'', ''apiKey'', ''api_key'', ''credentials'']"

definition redact :: "(string \<times> json) list \<Rightarrow> string \<Rightarrow> (string \<times> json) list" where
  "redact fs field = map (\<lambda>(k, v). if k = field then (k, JStr ''[REDACTED]'') else (k, v)) fs"

definition sanitizeToolArgs :: "json \<Rightarrow> json" where
  "sanitizeToolArgs args =
     (case sanitizeObject 5 args of
        JObj fs \<Rightarrow> JObj (foldl redact fs sensitiveFields)
      | sanitized \<Rightarrow> sanitized)"

subsection \<open>Messages, chunks and events\<close>

record tool_call =
  tc_name :: string
  tc_args :: json

record message =
  msg_type :: string
  msg_content :: json
  msg_tool_calls :: "tool_call list option"
  msg_name :: "string option"

record chunk =
  messages :: "message list option"

datatype event =
    TokenEvent string
  | ToolStartEvent string json
  | ToolEndEvent string string
  | DoneEvent
  | ErrorEvent string

text \<open>The text of an answer message. A content part that is \<open>null\<close> makes \<open>c.text\<close>
  throw a \<open>TypeError\<close>.\<close>

definition nullTextError :: js_error where
  "nullTextError = JsError ''TypeError'' (''Cannot read properties of null (reading '' @ [CHR 0x27] @ ''text'' @ [CHR 0x27] @ '')'')"

fun part_text :: "json \<Rightarrow> js_error + string" where
  "part_text (JStr s) = Inr s"
| "part_text JNull = Inl nullTextError"
| "part_text (JObj fs) =
     Inr (case map_of fs ''text'' of
            None \<Rightarrow> []
          | Some v \<Rightarrow> if truthy v then js_String v else [])"
| "part_text c = Inr []"

fun parts_text :: "json list \<Rightarrow> js_error + string" where
  "parts_text [] = Inr []"
| "parts_text (c # cs) =
     (case part_text c of
        Inl e \<Rightarrow> Inl e
      | Inr t \<Rightarrow> (case parts_text cs of Inl e \<Rightarrow> Inl e | Inr ts \<Rightarrow> Inr (t @ ts)))"

fun content_text :: "json \<Rightarrow> js_error + string" where
  "content_text (JStr s) = Inr s"
| "content_text (JArr cs) = parts_text cs"
| "content_text c = Inr (js_String c)"

subsection \<open>The loop over the stream\<close>

text \<open>The three request-scoped variables of the handler, and the events written to the
  response so far.\<close>

record stream_state =
  messageBuffer :: string
  lastToolName :: string
  sentMessages :: "string set"
  written :: "event list"

definition initial_state :: stream_state where
  "initial_state = \<lparr>messageBuffer = [], lastToolName = [], sentMessages = {}, written = []\<rparr>"

definition messageKey :: "message \<Rightarrow> string" where
  "messageKey m =
     msg_type m @ ''-'' @ JSON_stringify (if truthy (msg_content m) then msg_content m else JStr [])"

definition has_tool_calls :: "message \<Rightarrow> bool" where
  "has_tool_calls m = (case msg_tool_calls m of Some (toolCall # rest) \<Rightarrow> True | _ \<Rightarrow> False)"

text \<open>``Handle AI messages with content (final answer)''.\<close>

definition handle_answer :: "stream_state \<Rightarrow> message \<Rightarrow> js_error + stream_state" where
  "handle_answer st m =
     (if msg_type m = ''ai'' \<and> truthy (msg_content m) \<and> \<not> has_tool_calls m then
        (case content_text (msg_content m) of
           Inl e \<Rightarrow> Inl e
         | Inr content \<Rightarrow>
             if content \<noteq> [] \<and> content \<noteq> messageBuffer st \<and> messageKey m \<notin> sentMessages st
             then Inr (st\<lparr>messageBuffer := content,
                          sentMessages := insert (messageKey m) (sentMessages st),
                          written := written st @ [TokenEvent (sanitizeHTML content)]\<rparr>)
             else Inr st)
      else Inr st)"

text \<open>``Handle tool calls''.\<close>

definition handle_tool_calls :: "stream_state \<Rightarrow> message \<Rightarrow> stream_state" where
  "handle_tool_calls st m =
     (if msg_type m = ''ai'' then
        (case msg_tool_calls m of
           Some (toolCall # rest) \<Rightarrow>
             if tc_name toolCall \<noteq> lastToolName st
             then st\<lparr>lastToolName := tc_name toolCall,
                     written := written st @
                       [ToolStartEvent (sanitizeHTML (tc_name toolCall)) (sanitizeToolArgs (tc_args toolCall))]\<rparr>
             else st
         | _ \<Rightarrow> st)
      else st)"

text \<open>``Handle tool results''.\<close>

definition handle_tool_result :: "stream_state \<Rightarrow> message \<Rightarrow> stream_state" where
  "handle_tool_result st m =
     (if msg_type m = ''tool'' then
        (let toolKey = ''tool-'' @ (case msg_name m of None \<Rightarrow> ''undefined'' | Some n \<Rightarrow> n)
         in if toolKey \<notin> sentMessages st
            then st\<lparr>sentMessages := insert toolKey (sentMessages st),
                    written := written st @
                      [ToolEndEvent (sanitizeHTML (case msg_name m of None \<Rightarrow> [] | Some n \<Rightarrow> n))
                         (case msg_content m of
                            JStr s \<Rightarrow> truncate_str (sanitizeHTML s) 200
                          | _ \<Rightarrow> ''Result received'')]\<rparr>
            else st)
      else st)"

text \<open>One iteration of \<open>for await (const chunk of stream)\<close>.\<close>

definition chunk_lastMessage :: "chunk \<Rightarrow> message option" where
  "chunk_lastMessage c =
     (case messages c of
        None \<Rightarrow> None
      | Some msgs \<Rightarrow> if msgs = [] then None else Some (last msgs))"

definition process_chunk :: "stream_state \<Rightarrow> chunk \<Rightarrow> js_error + stream_state" where
  "process_chunk st c =
     (case chunk_lastMessage c of
        None \<Rightarrow> Inr st
      | Some lastMessage \<Rightarrow>
          (case handle_answer st lastMessage of
             Inl e \<Rightarrow> Inl e
           | Inr st1 \<Rightarrow> Inr (handle_tool_result (handle_tool_calls st1 lastMessage) lastMessage)))"

text \<open>The whole loop. The stream delivers its chunks and then either ends or throws
  \<open>failure\<close>; the result is the error that leaves the loop, if any, and the state
  reached.\<close>

fun process_stream :: "stream_state \<Rightarrow> chunk list \<Rightarrow> js_error option \<Rightarrow> js_error option \<times> stream_state" where
  "process_stream st [] failure = (failure, st)"
| "process_stream st (c # cs) failure =
     (case process_chunk st c of
        Inl e \<Rightarrow> (Some e, st)
      | Inr st' \<Rightarrow> process_stream st' cs failure)"

subsection \<open>The handler\<close>

record request =
  req_method :: string
  req_url :: "string option"
  req_question :: "string option"

definition ValidationError :: "string \<Rightarrow> js_error" where
  "ValidationError message = JsError ''ValidationError'' message"

definition validate :: "request \<Rightarrow> js_error + string \<times> string" where
  "validate req =
     (case req_url req of
        None \<Rightarrow> Inl (ValidationError ''URL parameter is required and cannot be empty'')
      | Some url \<Rightarrow>
          if trim url = [] then Inl (ValidationError ''URL parameter is required and cannot be empty'')
          else (case req_question req of
                  None \<Rightarrow> Inl (ValidationError ''Question parameter is required and cannot be empty'')
                | Some question \<Rightarrow>
                    if trim question = [] then
                      Inl (ValidationError ''Question parameter is required and cannot be empty'')
                    else if \<not> js_includes url ''youtube.com'' \<and> \<not> js_includes url ''youtu.be'' then
                      Inl (ValidationError
                             ''Invalid YouTube URL. Please provide a valid youtube.com or youtu.be URL'')
                    else if length question > 500 then
                      Inl (ValidationError ''Question is too long. Maximum 500 characters allowed'')
                    else Inr (url, question)))"

text \<open>The agent is a parameter: given the user message, its stream delivers a list of
  chunks and then ends or throws.\<close>

type_synonym agent = "string \<Rightarrow> chunk list \<times> js_error option"

definition user_message :: "string \<Rightarrow> string \<Rightarrow> string" where
  "user_message url question = ''URL: '' @ url @ [CHR 0x0A] @ ''Question: '' @ question"

text \<open>The body of the \<open>try\<close> block after the method check, up to the end of the loop: the
  error that reaches the \<open>catch\<close> block, if any, and the events written before it.\<close>

definition try_block :: "agent \<Rightarrow> request \<Rightarrow> js_error option \<times> event list" where
  "try_block agent req =
     (case validate req of
        Inl e \<Rightarrow> (Some e, [])
      | Inr (url, question) \<Rightarrow>
          (let (chunks, failure) = agent (user_message url question);
               (err, st) = process_stream initial_state chunks failure
           in (err, written st)))"

datatype response =
    JsonResponse nat string string
  | EventStream "event list"

definition handler :: "agent \<Rightarrow> request \<Rightarrow> response" where
  "handler agent req =
     (if req_method req \<noteq> ''POST'' then
        JsonResponse 405 ''Method Not Allowed'' ''Only POST requests are accepted''
      else
        (case try_block agent req of
           (None, evs) \<Rightarrow> EventStream (evs @ [DoneEvent])
         | (Some error, evs) \<Rightarrow> EventStream (evs @ [ErrorEvent (sanitizeErrorMessage error)])))"

text \<open>Projections of an event list.\<close>

fun is_terminator :: "event \<Rightarrow> bool" where
  "is_terminator DoneEvent = True"
| "is_terminator (ErrorEvent m) = True"
| "is_terminator e = False"

fun token_contents :: "event list \<Rightarrow> string list" where
  "token_contents [] = []"
| "token_contents (TokenEvent c # es) = c # token_contents es"
| "token_contents (e # es) = token_contents es"

fun tool_start_names :: "event list \<Rightarrow> string list" where
  "tool_start_names [] = []"
| "tool_start_names (ToolStartEvent n a # es) = n # tool_start_names es"
| "tool_start_names (e # es) = tool_start_names es"

fun response_events :: "response \<Rightarrow> event list" where
  "response_events (EventStream evs) = evs"
| "response_events (JsonResponse status error message) = []"

definition ai_answer :: "json \<Rightarrow> message" where
  "ai_answer c = \<lparr>msg_type = ''ai'', msg_content = c, msg_tool_calls = None, msg_name = None\<rparr>"

definition ai_tool_call :: "string \<Rightarrow> json \<Rightarrow> message" where
  "ai_tool_call n a = \<lparr>msg_type = ''ai'', msg_content = JStr [],
      msg_tool_calls = Some [\<lparr>tc_name = n, tc_args = a\<rparr>], msg_name = None\<rparr>"

definition tool_result :: "string \<Rightarrow> string \<Rightarrow> message" where
  "tool_result n c = \<lparr>msg_type = ''tool'', msg_content = JStr c, msg_tool_calls = None, msg_name = Some n\<rparr>"



text \<open>The text that the answer branch sees in a chunk, if the chunk's last message is
  an answer with a non-empty text.\<close>

definition chunk_answer :: "chunk \<Rightarrow> js_error + string option" where
  "chunk_answer c =
     (case chunk_lastMessage c of
        None \<Rightarrow> Inr None
      | Some lastMessage \<Rightarrow>
          if msg_type lastMessage = ''ai'' \<and> truthy (msg_content lastMessage) \<and>
             \<not> has_tool_calls lastMessage
          then (case content_text (msg_content lastMessage) of
                  Inl e \<Rightarrow> Inl e
                | Inr content \<Rightarrow> Inr (if content \<noteq> [] then Some content else None))
          else Inr None)"

subsection \<open>Properties of the event stream\<close>

lemma token_contents_append [simp]:
  "token_contents (xs @ ys) = token_contents xs @ token_contents ys"
  by (induction xs rule: token_contents.induct) simp_all

lemma tool_start_names_append [simp]:
  "tool_start_names (xs @ ys) = tool_start_names xs @ tool_start_names ys"
  by (induction xs rule: tool_start_names.induct) simp_all

definition no_terminator :: "event list \<Rightarrow> bool" where
  "no_terminator evs \<longleftrightarrow> list_all (\<lambda>e. \<not> is_terminator e) evs"

lemma no_terminator_simps [simp]:
  "no_terminator []"
  "no_terminator (xs @ ys) \<longleftrightarrow> no_terminator xs \<and> no_terminator ys"
  "no_terminator (e # es) \<longleftrightarrow> \<not> is_terminator e \<and> no_terminator es"
  by (simp_all add: no_terminator_def)

lemma handle_tool_calls_written:
  "written (handle_tool_calls st m) = written st \<and> lastToolName (handle_tool_calls st m) = lastToolName st \<or>
   (\<exists>n a. n \<noteq> lastToolName st \<and>
      written (handle_tool_calls st m) = written st @ [ToolStartEvent (sanitizeHTML n) a] \<and>
      lastToolName (handle_tool_calls st m) = n)"
  by (auto simp: handle_tool_calls_def split: option.splits list.splits)

lemma handle_tool_calls_other [simp]:
  "messageBuffer (handle_tool_calls st m) = messageBuffer st"
  "sentMessages (handle_tool_calls st m) = sentMessages st"
  by (simp_all add: handle_tool_calls_def split: option.splits list.splits)

lemma handle_tool_result_written:
  "handle_tool_result st m = st \<or>
   (\<exists>n r k. written (handle_tool_result st m) = written st @ [ToolEndEvent n r] \<and>
      sentMessages (handle_tool_result st m) = insert (''tool-'' @ k) (sentMessages st))"
  by (auto simp: handle_tool_result_def Let_def)

lemma handle_tool_result_other [simp]:
  "messageBuffer (handle_tool_result st m) = messageBuffer st"
  "lastToolName (handle_tool_result st m) = lastToolName st"
  by (simp_all add: handle_tool_result_def Let_def)

text \<open>What one iteration of the loop can do to the state: it writes at most one event,
  and the event goes with the matching change of the request-scoped variables.\<close>

lemma process_chunk_cases:
  assumes "process_chunk st c = Inr st'"
  shows "st' = st \<or>
    (\<exists>content k. content \<noteq> messageBuffer st \<and> content \<noteq> [] \<and>
       written st' = written st @ [TokenEvent (sanitizeHTML content)] \<and>
       messageBuffer st' = content \<and> lastToolName st' = lastToolName st \<and>
       chunk_answer c = Inr (Some content) \<and> k \<notin> sentMessages st \<and> startsWith k ''ai-'' \<and>
       sentMessages st' = insert k (sentMessages st)) \<or>
    (\<exists>n a. n \<noteq> lastToolName st \<and>
       written st' = written st @ [ToolStartEvent (sanitizeHTML n) a] \<and>
       messageBuffer st' = messageBuffer st \<and> lastToolName st' = n \<and>
       sentMessages st' = sentMessages st) \<or>
    (\<exists>n r k. written st' = written st @ [ToolEndEvent n r] \<and>
       messageBuffer st' = messageBuffer st \<and> lastToolName st' = lastToolName st \<and>
       sentMessages st' = insert (''tool-'' @ k) (sentMessages st))"
proof (cases "chunk_lastMessage c")
  case None
  with assms show ?thesis by (simp add: process_chunk_def)
next
  case (Some lm)
  show ?thesis
  proof (cases "msg_type lm = ''ai''")
    case ai: True
    then have res: "handle_tool_result s lm = s" for s
      by (simp add: handle_tool_result_def)
    show ?thesis
    proof (cases "has_tool_calls lm")
      case True
      then have "handle_answer st lm = Inr st"
        by (simp add: handle_answer_def)
      with assms Some res have "st' = handle_tool_calls st lm"
        by (simp add: process_chunk_def)
      with handle_tool_calls_written [of st lm] show ?thesis
        by (auto simp: handle_tool_calls_def split: option.splits list.splits)
    next
      case False
      then have calls: "handle_tool_calls s lm = s" for s
        by (auto simp: handle_tool_calls_def has_tool_calls_def split: option.splits list.splits)
      from assms Some res calls have ans: "handle_answer st lm = Inr st'"
        by (simp add: process_chunk_def split: sum.splits)
      show ?thesis
      proof (cases "st' = st")
        case True
        then show ?thesis by simp
      next
        case changed: False
        with ans ai False obtain content where
          c: "content_text (msg_content lm) = Inr content" "truthy (msg_content lm)"
             "content \<noteq> []" "content \<noteq> messageBuffer st" "messageKey lm \<notin> sentMessages st"
             "st' = st\<lparr>messageBuffer := content,
                        sentMessages := insert (messageKey lm) (sentMessages st),
                        written := written st @ [TokenEvent (sanitizeHTML content)]\<rparr>"
          by (auto simp: handle_answer_def split: if_splits sum.splits)
        have "chunk_answer c = Inr (Some content)"
          using Some ai False c by (simp add: chunk_answer_def)
        moreover have "startsWith (messageKey lm) ''ai-''"
          using ai by (simp add: messageKey_def)
        ultimately show ?thesis
          using c by auto
      qed
    qed
  next
    case False
    then have "handle_answer st lm = Inr st" "handle_tool_calls st lm = st"
      by (simp_all add: handle_answer_def handle_tool_calls_def)
    with assms Some have "st' = handle_tool_result st lm"
      by (simp add: process_chunk_def)
    with handle_tool_result_written [of st lm] show ?thesis
      by auto
  qed
qed


lemma process_stream_induct:
  assumes "P st"
    and "\<And>s c s'. P s \<Longrightarrow> process_chunk s c = Inr s' \<Longrightarrow> P s'"
  shows "P (snd (process_stream st chunks failure))"
  using assms(1)
proof (induction chunks arbitrary: st)
  case Nil
  then show ?case by simp
next
  case (Cons c cs)
  then show ?case
    by (cases "process_chunk st c") (auto intro: assms(2))
qed

definition stream_inv :: "stream_state \<Rightarrow> bool" where
  "stream_inv st \<longleftrightarrow>
     no_terminator (written st) \<and>
     distinct_adj (tool_start_names (written st)) \<and>
     (tool_start_names (written st) \<noteq> [] \<longrightarrow>
        last (tool_start_names (written st)) = sanitizeHTML (lastToolName st)) \<and>
     distinct_adj (token_contents (written st)) \<and>
     (token_contents (written st) \<noteq> [] \<longrightarrow>
        last (token_contents (written st)) = sanitizeHTML (messageBuffer st))"

lemma stream_inv_initial: "stream_inv initial_state"
  by (simp add: stream_inv_def initial_state_def)

lemma stream_inv_step:
  assumes "stream_inv st" and "process_chunk st c = Inr st'"
  shows "stream_inv st'"
  using process_chunk_cases [OF assms(2)] assms(1)
  by (elim disjE exE conjE) (auto simp: stream_inv_def distinct_adj_append_iff)

lemma stream_inv_final: "stream_inv (snd (process_stream initial_state chunks failure))"
  by (rule process_stream_induct [where P = stream_inv]) (auto intro: stream_inv_initial stream_inv_step)

lemma try_block_written:
  "\<exists>st. stream_inv st \<and> snd (try_block agent req) = written st"
proof (cases "validate req")
  case (Inl e)
  have "stream_inv initial_state \<and> [] = written initial_state"
    by (simp add: stream_inv_initial) (simp add: initial_state_def)
  with Inl show ?thesis
    by (auto simp: try_block_def)
next
  case (Inr uq)
  obtain u q where uq: "uq = (u, q)" by (cases uq)
  obtain chunks failure where run: "agent (user_message u q) = (chunks, failure)"
    by (cases "agent (user_message u q)")
  have "snd (try_block agent req) = written (snd (process_stream initial_state chunks failure))"
    using Inr uq run by (simp add: try_block_def user_message_def split: prod.splits)
  with stream_inv_final show ?thesis by blast
qed


subsection \<open>A request whose answer-bearing chunks all carry the same text\<close>











lemma handler_events:
  assumes "req_method req = ''POST''"
  shows "response_events (handler agent req) =
           snd (try_block agent req) @
             [case fst (try_block agent req) of
                None \<Rightarrow> DoneEvent
              | Some error \<Rightarrow> ErrorEvent (sanitizeErrorMessage error)]"
  using assms by (cases "try_block agent req") (auto simp: handler_def split: option.splits)

lemma handler_events_not_post:
  "req_method req \<noteq> ''POST'' \<Longrightarrow> response_events (handler agent req) = []"
  by (simp add: handler_def)


lemma handler_tool_starts:
  "tool_start_names (response_events (handler agent req)) =
     (if req_method req = ''POST'' then tool_start_names (snd (try_block agent req)) else [])"
  by (auto simp: handler_events handler_events_not_post split: option.splits)


subsection \<open>Example requests\<close>

definition example_request :: request where
  "example_request =
     \<lparr>req_method = ''POST'', req_url = Some ''https://youtu.be/dQw4w9WgXcQ'',
      req_question = Some ''What is 5 compared to 3?''\<rparr>"

definition example_args :: json where
  "example_args = JObj [(''videoId'', JStr ''dQw4w9WgXcQ'')]"

definition example_chunks :: "chunk list" where
  "example_chunks =
     [\<lparr>messages = Some [ai_tool_call ''query_video_content'' example_args]\<rparr>,
      \<lparr>messages = Some [ai_tool_call ''query_video_content'' example_args,
                         tool_result ''query_video_content'' ''Tool error: not indexed'']\<rparr>,
      \<lparr>messages = Some [ai_tool_call ''index_content'' example_args]\<rparr>,
      \<lparr>messages = Some [ai_tool_call ''index_content'' example_args,
                         tool_result ''index_content'' ''Successfully indexed'']\<rparr>,
      \<lparr>messages = Some [ai_tool_call ''query_video_content'' example_args]\<rparr>,
      \<lparr>messages = Some [ai_answer (JStr ''5 > 3'')]\<rparr>]"

definition example_agent :: agent where
  "example_agent = (\<lambda>userMessage. (example_chunks, None))"



lemma example_response:
  "handler example_agent example_request =
     EventStream
       [ToolStartEvent ''query_video_content'' example_args,
        ToolEndEvent ''query_video_content'' ''Tool error: not indexed'',
        ToolStartEvent ''index_content'' example_args,
        ToolEndEvent ''index_content'' ''Successfully indexed'',
        ToolStartEvent ''query_video_content'' example_args,
        TokenEvent ''5 &gt; 3'',
        DoneEvent]"
  by code_simp





text \<open>
  Claim C2. A request whose method is not \<open>POST\<close> is answered with the JSON response 405
  and no event. For every other request the response is an event stream that consists of
  the events written while the messages were processed, none of which is \<open>done\<close> or
  \<open>error\<close>, followed by exactly one terminator: \<open>done\<close> when no error reached the
  \<open>catch\<close> block, and otherwise one \<open>error\<close> event; nothing follows the terminator.
\<close>

theorem stream_terminated_once:
  "(req_method req \<noteq> ''POST'' \<and>
      handler agent req = JsonResponse 405 ''Method Not Allowed'' ''Only POST requests are accepted'') \<or>
   (req_method req = ''POST'' \<and>
      (\<exists>evs t. handler agent req = EventStream (evs @ [t]) \<and>
         evs = snd (try_block agent req) \<and>
         no_terminator evs \<and>
         filter is_terminator (evs @ [t]) = [t] \<and>
         (case fst (try_block agent req) of
            None \<Rightarrow> t = DoneEvent
          | Some error \<Rightarrow> t = ErrorEvent (sanitizeErrorMessage error))))"
proof (cases "req_method req = ''POST''")
  case False
  then show ?thesis by (simp add: handler_def)
next
  case True
  obtain st where st: "stream_inv st" "snd (try_block agent req) = written st"
    using try_block_written by blast
  then have nt: "no_terminator (snd (try_block agent req))"
    by (simp add: stream_inv_def)
  then have none: "filter is_terminator (snd (try_block agent req)) = []"
    by (simp add: no_terminator_def list_all_iff filter_empty_conv)
  show ?thesis
  proof (cases "fst (try_block agent req)")
    case None
    then have "handler agent req = EventStream (snd (try_block agent req) @ [DoneEvent])"
      using True by (cases "try_block agent req") (simp add: handler_def)
    with True nt none None show ?thesis by simp
  next
    case (Some error)
    then have "handler agent req =
                 EventStream (snd (try_block agent req) @ [ErrorEvent (sanitizeErrorMessage error)])"
      using True by (cases "try_block agent req") (simp add: handler_def)
    with True nt none Some show ?thesis by simp
  qed
qed

theorem stream_terminated_once_witness:
  "\<exists>evs. handler example_agent example_request = EventStream (evs @ [DoneEvent]) \<and>
     no_terminator evs \<and> length evs = 6"
proof -
  have "req_method example_request = ''POST''"
    by (simp add: example_request_def)
  with stream_terminated_once [of example_request example_agent]
  obtain evs t where e: "handler example_agent example_request = EventStream (evs @ [t])"
      "no_terminator evs"
    by auto
  from e(1) have "evs @ [t] =
      [ToolStartEvent ''query_video_content'' example_args,
       ToolEndEvent ''query_video_content'' ''Tool error: not indexed'',
       ToolStartEvent ''index_content'' example_args,
       ToolEndEvent ''index_content'' ''Successfully indexed'',
       ToolStartEvent ''query_video_content'' example_args,
       TokenEvent ''5 &gt; 3''] @ [DoneEvent]"
    by (simp add: example_response)
  then have "evs =
      [ToolStartEvent ''query_video_content'' example_args,
       ToolEndEvent ''query_video_content'' ''Tool error: not indexed'',
       ToolStartEvent ''index_content'' example_args,
       ToolEndEvent ''index_content'' ''Successfully indexed'',
       ToolStartEvent ''query_video_content'' example_args,
       TokenEvent ''5 &gt; 3''] \<and> t = DoneEvent"
    by (simp only: append1_eq_conv)
  then have "length evs = 6" "t = DoneEvent"
    by simp_all
  with e show ?thesis by blast
qed

text \<open>
  Claim C3, as stated, fails: the name of a tool is announced again when another tool
  was announced in between. When the agent calls \<open>query_video_content\<close>, then
  \<open>index_content\<close>, then \<open>query_video_content\<close> again, three \<open>tool_start\<close> events are
  written, two of them with the name \<open>query_video_content\<close>.
\<close>

theorem tool_start_counterexample:
  "tool_start_names (response_events (handler example_agent example_request)) =
     [''query_video_content'', ''index_content'', ''query_video_content'']"
  by (simp add: example_response)

text \<open>
  Claim C3, amended. A \<open>tool_start\<close> event is written exactly when the last message is
  an AI message whose first tool call has a name other than \<open>lastToolName\<close>, the name
  announced last (initially the empty string). So within one request no two
  \<open>tool_start\<close> events that follow each other carry the same tool name.
\<close>

theorem tool_start_dedup_consecutive:
  "distinct_adj (tool_start_names (response_events (handler agent req))) \<and>
   (written (handle_tool_calls st m) \<noteq> written st \<longleftrightarrow>
      msg_type m = ''ai'' \<and>
      (\<exists>toolCall rest. msg_tool_calls m = Some (toolCall # rest) \<and> tc_name toolCall \<noteq> lastToolName st)) \<and>
   (written (handle_tool_calls st m) \<noteq> written st \<longrightarrow>
      (\<exists>toolCall rest. msg_tool_calls m = Some (toolCall # rest) \<and>
         lastToolName (handle_tool_calls st m) = tc_name toolCall \<and>
         written (handle_tool_calls st m) =
           written st @ [ToolStartEvent (sanitizeHTML (tc_name toolCall)) (sanitizeToolArgs (tc_args toolCall))]))"
proof (intro conjI)
  obtain s where "stream_inv s" "snd (try_block agent req) = written s"
    using try_block_written by blast
  then show "distinct_adj (tool_start_names (response_events (handler agent req)))"
    by (simp add: handler_tool_starts stream_inv_def)
next
  show "written (handle_tool_calls st m) \<noteq> written st \<longleftrightarrow>
      msg_type m = ''ai'' \<and>
      (\<exists>toolCall rest. msg_tool_calls m = Some (toolCall # rest) \<and> tc_name toolCall \<noteq> lastToolName st)"
    by (auto simp: handle_tool_calls_def split: option.splits list.splits)
next
  show "written (handle_tool_calls st m) \<noteq> written st \<longrightarrow>
      (\<exists>toolCall rest. msg_tool_calls m = Some (toolCall # rest) \<and>
         lastToolName (handle_tool_calls st m) = tc_name toolCall \<and>
         written (handle_tool_calls st m) =
           written st @ [ToolStartEvent (sanitizeHTML (tc_name toolCall)) (sanitizeToolArgs (tc_args toolCall))])"
    by (auto simp: handle_tool_calls_def split: option.splits list.splits if_splits)
qed

theorem tool_start_dedup_consecutive_witness:
  "distinct_adj (tool_start_names (response_events (handler example_agent example_request))) \<and>
   written (handle_tool_calls initial_state (ai_tool_call ''index_content'' example_args)) =
     [ToolStartEvent ''index_content'' (sanitizeToolArgs example_args)] \<and>
   written (handle_tool_calls (initial_state\<lparr>lastToolName := ''index_content''\<rparr>)
              (ai_tool_call ''index_content'' example_args)) = []"
proof -
  have a: "written (handle_tool_calls initial_state (ai_tool_call ''index_content'' example_args)) \<noteq>
           written initial_state"
    by (simp add: handle_tool_calls_def ai_tool_call_def initial_state_def)
  have b: "sanitizeHTML ''index_content'' = ''index_content''"
    by (simp add: sanitizeHTML_def htmlEscape_def)
  have c: "written (handle_tool_calls (initial_state\<lparr>lastToolName := ''index_content''\<rparr>)
              (ai_tool_call ''index_content'' example_args)) = []"
    by (simp add: handle_tool_calls_def ai_tool_call_def initial_state_def)
  from tool_start_dedup_consecutive [of example_agent example_request initial_state
         "ai_tool_call ''index_content'' example_args"] a b c
  show ?thesis
    by (auto simp: ai_tool_call_def initial_state_def)
qed





section \<open>Compression: \<open>ContextualCompressor\<close> and \<open>quickCompress\<close>\<close>

subsection \<open>Definitions\<close>

definition to_lower :: "char \<Rightarrow> char" where
  "to_lower c =
     (let n = code_unit c
      in if (65 \<le> n \<and> n \<le> 90) \<or> (192 \<le> n \<and> n \<le> 222 \<and> n \<noteq> 215) then char_of (n + 32) else c)"

definition toLowerCase :: "string \<Rightarrow> string" where
  "toLowerCase s = map to_lower s"

text \<open>\<open>s.split(/[...]+/)\<close> for a character class: the pieces between the maximal runs of
  separator characters.\<close>

function split_on :: "(char \<Rightarrow> bool) \<Rightarrow> string \<Rightarrow> string list" where
  "split_on sep [] = [[]]"
| "split_on sep (c # cs) =
     (if sep c then [] # split_on sep (dropWhile sep cs)
      else (case split_on sep cs of
              [] \<Rightarrow> [[c]]
            | piece # pieces \<Rightarrow> (c # piece) # pieces))"
  by pat_completeness auto
termination
  by (relation "measure (\<lambda>(sep, s). length s)") (auto simp: length_dropWhile_le less_Suc_eq_le)

definition sentence_end :: "char \<Rightarrow> bool" where
  "sentence_end c \<longleftrightarrow> c = CHR ''.'' \<or> c = CHR ''!'' \<or> c = CHR ''?''"

definition queryTerms :: "string \<Rightarrow> string list" where
  "queryTerms query = filter (\<lambda>term. length term > 3) (split_on is_ws (toLowerCase query))"

definition sentences :: "string \<Rightarrow> string list" where
  "sentences text = filter (\<lambda>s. length s > 20) (map trim (split_on sentence_end text))"

definition score :: "string list \<Rightarrow> string \<Rightarrow> nat" where
  "score terms sentence = length (filter (\<lambda>term. js_includes (toLowerCase sentence) term) terms)"

text \<open>\<open>sort((a, b) => b.score - a.score)\<close>: a stable sort by descending score.\<close>

definition sort_by_score :: "(string \<times> nat) list \<Rightarrow> (string \<times> nat) list" where
  "sort_by_score scored = sort_key (\<lambda>(sentence, sc). - int sc) scored"

definition topSentences :: "string \<Rightarrow> string \<Rightarrow> nat \<Rightarrow> string list" where
  "topSentences text query maxSentences =
     map fst (filter (\<lambda>(sentence, sc). sc > 0)
       (take maxSentences
          (sort_by_score (map (\<lambda>sentence. (sentence, score (queryTerms query) sentence)) (sentences text)))))"

definition extractRelevantSentences :: "string \<Rightarrow> string \<Rightarrow> nat \<Rightarrow> string" where
  "extractRelevantSentences text query maxSentences =
     (if topSentences text query maxSentences = []
      then js_join ''. '' (take maxSentences (sentences text)) @ ''.''
      else js_join ''. '' (topSentences text query maxSentences) @ ''.'')"


text \<open>\<open>quickCompress\<close> maps \<open>extractRelevantSentences\<close> over the documents.\<close>

record document =
  pageContent :: string
  startTime :: "nat option"

definition quickCompress :: "document list \<Rightarrow> string \<Rightarrow> nat \<Rightarrow> (document \<times> string) list" where
  "quickCompress docs query sentencesPerDoc =
     map (\<lambda>doc. (doc, extractRelevantSentences (pageContent doc) query sentencesPerDoc)) docs"



subsection \<open>Length of the heuristic selection\<close>
























section \<open>Transcript source adapter: \<open>extractVideoId\<close>, \<open>retryWithBackoff\<close>, \<open>fetchTranscript\<close>\<close>

subsection \<open>Definitions\<close>

text \<open>The class \<open>[a-zA-Z0-9_-]\<close>.\<close>

definition id_class :: "(char \<times> char) list" where
  "id_class = [(CHR ''a'', CHR ''z''), (CHR ''A'', CHR ''Z''), (CHR ''0'', CHR ''9''),
               (CHR ''_'', CHR ''_''), (CHR ''-'', CHR ''-'')]"

text \<open>The building blocks of \<open>YOUTUBE_URL_PATTERNS\<close>: \<open>(?:https?:\/\/)?\<close>,
  \<open>(?:www\.)?\<close>, \<open>([a-zA-Z0-9_-]{11})\<close>, \<open>(?:[&?].*)?\<close> and \<open>(?:\?.*)?\<close>.\<close>

definition scheme_opt :: regex where
  "scheme_opt = Opt (Seq (Lit ''http'') (Seq (Opt (Chr CHR ''s'')) (Lit ''://'')))"

definition www_opt :: regex where
  "www_opt = Opt (Lit ''www.'')"

definition id_group :: regex where
  "id_group = Grp (Rep 11 (Cls id_class))"

definition amp_tail :: regex where
  "amp_tail = Opt (Seq (Cls [(CHR ''&'', CHR ''&''), (CHR ''?'', CHR ''?'')]) (Star Dot))"

definition query_tail :: regex where
  "query_tail = Opt (Seq (Chr CHR ''?'') (Star Dot))"

definition pattern_standard :: regex where
  "pattern_standard =
     Seq scheme_opt (Seq www_opt (Seq (Lit ''youtube.com/watch?v='') (Seq id_group (Seq amp_tail Eol))))"

definition pattern_short :: regex where
  "pattern_short =
     Seq scheme_opt (Seq www_opt (Seq (Lit ''youtu.be/'') (Seq id_group (Seq query_tail Eol))))"

definition pattern_embed :: regex where
  "pattern_embed =
     Seq scheme_opt (Seq www_opt (Seq (Lit ''youtube.com/embed/'') (Seq id_group (Seq query_tail Eol))))"

definition pattern_mobile :: regex where
  "pattern_mobile =
     Seq scheme_opt (Seq (Lit ''m.youtube.com/watch?v='') (Seq id_group (Seq amp_tail Eol)))"

definition YOUTUBE_URL_PATTERNS :: "regex list" where
  "YOUTUBE_URL_PATTERNS = [pattern_standard, pattern_short, pattern_embed, pattern_mobile]"

text \<open>\<open>/^[a-zA-Z0-9_-]{11}$/\<close>.\<close>

definition bare_id_pattern :: regex where
  "bare_id_pattern = Seq Bol (Seq (Rep 11 (Cls id_class)) Eol)"

text \<open>The loop over the patterns: the first pattern that matches returns its group 1.\<close>

fun first_match :: "regex list \<Rightarrow> string \<Rightarrow> string option" where
  "first_match [] input = None"
| "first_match (pattern # patterns) input =
     (case exec_from False pattern 0 input of
        Some (p, rest, captured) \<Rightarrow> captured
      | None \<Rightarrow> first_match patterns input)"

definition extractVideoId :: "string \<Rightarrow> string option" where
  "extractVideoId input =
     (if trim input = [] then None
      else if re_test False bare_id_pattern input then Some input
      else first_match YOUTUBE_URL_PATTERNS input)"

text \<open>
  \<open>retryWithBackoff\<close>. \<open>fn attempt\<close> is the outcome of the attempt with that number. The
  delays between attempts and the logging callback do not change the result. A thrown
  value that is not an \<open>Error\<close> is wrapped into one; the loop throws the last error, which
  is undefined when no attempt was made.
\<close>

fun as_Error :: "js_error \<Rightarrow> js_error" where
  "as_Error (JsError name message) = JsError name message"
| "as_Error (JsThrown s) = JsError ''Error'' s"
| "as_Error JsNullish = JsError ''Error'' ''undefined''"

fun retry_loop :: "(nat \<Rightarrow> js_error + 'a) \<Rightarrow> nat \<Rightarrow> nat \<Rightarrow> js_error option \<Rightarrow> js_error option + 'a" where
  "retry_loop fn 0 attempt lastError = Inl lastError"
| "retry_loop fn (Suc attemptsLeft) attempt lastError =
     (case fn attempt of
        Inr result \<Rightarrow> Inr result
      | Inl error \<Rightarrow> retry_loop fn attemptsLeft (Suc attempt) (Some (as_Error error)))"

definition retryWithBackoff :: "(nat \<Rightarrow> js_error + 'a) \<Rightarrow> int \<Rightarrow> js_error option + 'a" where
  "retryWithBackoff fn maxRetries = retry_loop fn (nat (maxRetries + 1)) 0 None"

record loader_document =
  doc_pageContent :: "string option"

record TranscriptResult =
  tr_id :: string
  tr_text :: string
  tr_docs :: "loader_document list"

fun error_message :: "js_error \<Rightarrow> string" where
  "error_message (JsError name message) = message"
| "error_message (JsThrown s) = ''Unknown error''"
| "error_message JsNullish = ''Unknown error''"

definition fetchFailure :: "string \<Rightarrow> string \<Rightarrow> js_error" where
  "fetchFailure videoId message =
     JsError ''Error'' (''Failed to fetch transcript for video '' @ videoId @ '': '' @ message)"

text \<open>
  \<open>fetchTranscript\<close>. The loader is a parameter: \<open>load url language attempt\<close> is what
  \<open>loader.load()\<close> does in that attempt, an error or the documents (possibly \<open>null\<close>).
\<close>

definition fetchTranscript ::
    "(string \<Rightarrow> string \<Rightarrow> nat \<Rightarrow> js_error + loader_document list option) \<Rightarrow>
     string \<Rightarrow> string \<Rightarrow> int \<Rightarrow> js_error + TranscriptResult" where
  "fetchTranscript load videoUrlOrId language maxRetries =
     (if trim videoUrlOrId = [] then Inl (JsError ''Error'' ''Video URL or ID is required'')
      else
        (case extractVideoId videoUrlOrId of
           None \<Rightarrow> Inl (JsError ''Error'' (''Invalid YouTube URL or video ID: '' @ videoUrlOrId))
         | Some videoId \<Rightarrow>
             if videoId = [] then
               Inl (JsError ''Error'' (''Invalid YouTube URL or video ID: '' @ videoUrlOrId))
             else
               (case retryWithBackoff (load (''https://www.youtube.com/watch?v='' @ videoId) language)
                       maxRetries of
                  Inl None \<Rightarrow> Inl (fetchFailure videoId ''Unknown error'')
                | Inl (Some error) \<Rightarrow> Inl (fetchFailure videoId (error_message error))
                | Inr None \<Rightarrow>
                    Inl (fetchFailure videoId (''No transcript found for video: '' @ videoId))
                | Inr (Some docs) \<Rightarrow>
                    if docs = [] then
                      Inl (fetchFailure videoId (''No transcript found for video: '' @ videoId))
                    else
                      Inr \<lparr>tr_id = videoId,
                           tr_text = js_join '' ''
                             (filter (\<lambda>content. length content > 0)
                                (map (\<lambda>doc. case doc_pageContent doc of None \<Rightarrow> [] | Some c \<Rightarrow> c) docs)),
                           tr_docs = docs\<rparr>)))"


subsection \<open>Retries and failures of \<open>fetchTranscript\<close>\<close>

lemma retry_loop_first_result:
  assumes "\<forall>a. attempt \<le> a \<and> a < attempt + j \<longrightarrow> (\<exists>e. fn a = Inl e)"
    and "fn (attempt + j) = Inr result" and "j < n"
  shows "retry_loop fn n attempt lastError = Inr result"
  using assms
proof (induction j arbitrary: n attempt lastError)
  case 0
  then obtain m where "n = Suc m" by (cases n) auto
  with 0 show ?case by simp
next
  case (Suc j)
  then obtain m where n: "n = Suc m" by (cases n) auto
  from Suc.prems(1) obtain e where e: "fn attempt = Inl e" by force
  have "retry_loop fn m (Suc attempt) (Some (as_Error e)) = Inr result"
    using Suc.prems n by (intro Suc.IH) auto
  with n e show ?case by simp
qed

lemma retry_loop_all_fail:
  assumes "\<forall>a. attempt \<le> a \<and> a < attempt + n \<longrightarrow> (\<exists>e. fn a = Inl e)" and "0 < n"
  shows "\<exists>e. fn (attempt + n - 1) = Inl e \<and> retry_loop fn n attempt lastError = Inl (Some (as_Error e))"
  using assms
proof (induction n arbitrary: attempt lastError)
  case 0
  then show ?case by simp
next
  case (Suc n)
  from Suc.prems(1) obtain e where e: "fn attempt = Inl e" by force
  show ?case
  proof (cases n)
    case 0
    with e show ?thesis by simp
  next
    case (Suc m)
    have "\<exists>e'. fn (Suc attempt + n - 1) = Inl e' \<and>
            retry_loop fn n (Suc attempt) (Some (as_Error e)) = Inl (Some (as_Error e'))"
      using Suc.prems Suc by (intro Suc.IH) auto
    with e Suc show ?thesis by auto
  qed
qed

lemma extractVideoId_not_blank: "extractVideoId input = Some videoId \<Longrightarrow> trim input \<noteq> []"
  by (auto simp: extractVideoId_def split: if_splits)

definition transcript_text :: "loader_document list \<Rightarrow> string" where
  "transcript_text docs =
     js_join '' '' (filter (\<lambda>content. length content > 0)
       (map (\<lambda>doc. case doc_pageContent doc of None \<Rightarrow> [] | Some c \<Rightarrow> c) docs))"

lemma transcript_text_all_empty:
  assumes "\<forall>doc \<in> set docs. doc_pageContent doc = None \<or> doc_pageContent doc = Some []"
  shows "transcript_text docs = []"
proof -
  have "filter (\<lambda>content. length content > 0)
          (map (\<lambda>doc. case doc_pageContent doc of None \<Rightarrow> [] | Some c \<Rightarrow> c) docs) = []"
    using assms by (auto simp: filter_empty_conv split: option.splits)
  then show ?thesis by (simp add: transcript_text_def)
qed

lemma fetchTranscript_result:
  assumes "extractVideoId videoUrlOrId = Some videoId" and "videoId \<noteq> []"
    and "retryWithBackoff (load (''https://www.youtube.com/watch?v='' @ videoId) language) maxRetries = r"
  shows "fetchTranscript load videoUrlOrId language maxRetries =
           (case r of
              Inl None \<Rightarrow> Inl (fetchFailure videoId ''Unknown error'')
            | Inl (Some error) \<Rightarrow> Inl (fetchFailure videoId (error_message error))
            | Inr None \<Rightarrow> Inl (fetchFailure videoId (''No transcript found for video: '' @ videoId))
            | Inr (Some docs) \<Rightarrow>
                if docs = [] then Inl (fetchFailure videoId (''No transcript found for video: '' @ videoId))
                else Inr \<lparr>tr_id = videoId, tr_text = transcript_text docs, tr_docs = docs\<rparr>)"
  using assms extractVideoId_not_blank [OF assms(1)]
  by (simp add: fetchTranscript_def transcript_text_def split: sum.splits option.splits)

definition empty_text_loader :: "string \<Rightarrow> string \<Rightarrow> nat \<Rightarrow> js_error + loader_document list option" where
  "empty_text_loader = (\<lambda>url language attempt. Inr (Some [\<lparr>doc_pageContent = Some []\<rparr>, \<lparr>doc_pageContent = None\<rparr>]))"

definition flaky_loader :: "string \<Rightarrow> string \<Rightarrow> nat \<Rightarrow> js_error + loader_document list option" where
  "flaky_loader = (\<lambda>url language attempt. if attempt < 2 then Inl (JsError ''Error'' ''socket hang up'') else Inr (Some []))"

definition failing_loader :: "string \<Rightarrow> string \<Rightarrow> nat \<Rightarrow> js_error + loader_document list option" where
  "failing_loader = (\<lambda>url language attempt. Inl (JsError ''Error'' ''Transcript is disabled on this video''))"

lemma extractVideoId_example: "extractVideoId ''dQw4w9WgXcQ'' = Some ''dQw4w9WgXcQ''"
  by code_simp

text \<open>
  Claim C5, as stated, fails in its second case: when the source returns passages that
  all have empty (or no) text, \<open>fetchTranscript\<close> returns a \<open>TranscriptResult\<close> whose text is
  empty; it does not fail.
\<close>

theorem fetchTranscript_empty_text_counterexample:
  "fetchTranscript empty_text_loader ''dQw4w9WgXcQ'' ''en'' 3 =
     Inr \<lparr>tr_id = ''dQw4w9WgXcQ'', tr_text = [],
          tr_docs = [\<lparr>doc_pageContent = Some []\<rparr>, \<lparr>doc_pageContent = None\<rparr>]\<rparr>"
  by code_simp

text \<open>
  Claim C5, amended. For an input from which a video identifier is extracted,
  \<open>fetchTranscript\<close> fails with the error ``Failed to fetch transcript for video ...''
  when the source throws in every one of the \<open>maxRetries + 1\<close> attempts, and when the first
  attempt that does not throw returns no passages (\<open>null\<close> or an empty list; such a result
  is not retried). When that attempt returns at least one passage the call succeeds, and
  if all the passages have empty text the result's text is empty.
\<close>

theorem fetchTranscript_failures:
  assumes "extractVideoId videoUrlOrId = Some videoId" and "videoId \<noteq> []"
    and "fn = load (''https://www.youtube.com/watch?v='' @ videoId) language"
  shows "(0 \<le> maxRetries \<and> (\<forall>a. a \<le> nat maxRetries \<longrightarrow> (\<exists>e. fn a = Inl e)) \<longrightarrow>
            (\<exists>e. fn (nat maxRetries) = Inl e \<and>
               fetchTranscript load videoUrlOrId language maxRetries =
                 Inl (fetchFailure videoId (error_message (as_Error e))))) \<and>
         (int j \<le> maxRetries \<and> (\<forall>a. a < j \<longrightarrow> (\<exists>e. fn a = Inl e)) \<and>
          (fn j = Inr None \<or> fn j = Inr (Some [])) \<longrightarrow>
            fetchTranscript load videoUrlOrId language maxRetries =
              Inl (fetchFailure videoId (''No transcript found for video: '' @ videoId))) \<and>
         (int j \<le> maxRetries \<and> (\<forall>a. a < j \<longrightarrow> (\<exists>e. fn a = Inl e)) \<and>
          fn j = Inr (Some docs) \<and> docs \<noteq> [] \<longrightarrow>
            fetchTranscript load videoUrlOrId language maxRetries =
              Inr \<lparr>tr_id = videoId, tr_text = transcript_text docs, tr_docs = docs\<rparr> \<and>
            ((\<forall>doc \<in> set docs. doc_pageContent doc = None \<or> doc_pageContent doc = Some []) \<longrightarrow>
               transcript_text docs = []))"
proof (intro conjI impI)
  assume h: "0 \<le> maxRetries \<and> (\<forall>a. a \<le> nat maxRetries \<longrightarrow> (\<exists>e. fn a = Inl e))"
  then have "\<forall>a. 0 \<le> a \<and> a < 0 + nat (maxRetries + 1) \<longrightarrow> (\<exists>e. fn a = Inl e)"
    by auto
  moreover have "0 < nat (maxRetries + 1)"
    using h by simp
  ultimately obtain e where e: "fn (0 + nat (maxRetries + 1) - 1) = Inl e"
      "retry_loop fn (nat (maxRetries + 1)) 0 None = Inl (Some (as_Error e))"
    using retry_loop_all_fail [of 0 "nat (maxRetries + 1)" fn None] by blast
  have idx: "0 + nat (maxRetries + 1) - 1 = nat maxRetries"
    using h by (simp add: nat_add_distrib)
  have "retryWithBackoff fn maxRetries = Inl (Some (as_Error e))"
    using e(2) by (simp add: retryWithBackoff_def)
  then have "fetchTranscript load videoUrlOrId language maxRetries =
               Inl (fetchFailure videoId (error_message (as_Error e)))"
    using fetchTranscript_result [OF assms(1,2), of load language maxRetries] assms(3) by simp
  with e(1) idx show "\<exists>e. fn (nat maxRetries) = Inl e \<and>
               fetchTranscript load videoUrlOrId language maxRetries =
                 Inl (fetchFailure videoId (error_message (as_Error e)))"
    by auto
next
  assume h: "int j \<le> maxRetries \<and> (\<forall>a. a < j \<longrightarrow> (\<exists>e. fn a = Inl e)) \<and>
          (fn j = Inr None \<or> fn j = Inr (Some []))"
  then obtain r where r: "fn j = Inr r" "r = None \<or> r = Some []" by auto
  have "retry_loop fn (nat (maxRetries + 1)) 0 None = Inr r"
    using h r(1) by (intro retry_loop_first_result [where j = j]) auto
  then have "retryWithBackoff fn maxRetries = Inr r"
    by (simp add: retryWithBackoff_def)
  then show "fetchTranscript load videoUrlOrId language maxRetries =
              Inl (fetchFailure videoId (''No transcript found for video: '' @ videoId))"
    using fetchTranscript_result [OF assms(1,2), of load language maxRetries] assms(3) r(2) by auto
next
  assume h: "int j \<le> maxRetries \<and> (\<forall>a. a < j \<longrightarrow> (\<exists>e. fn a = Inl e)) \<and>
          fn j = Inr (Some docs) \<and> docs \<noteq> []"
  have "retry_loop fn (nat (maxRetries + 1)) 0 None = Inr (Some docs)"
    using h by (intro retry_loop_first_result [where j = j]) auto
  then have "retryWithBackoff fn maxRetries = Inr (Some docs)"
    by (simp add: retryWithBackoff_def)
  then show "fetchTranscript load videoUrlOrId language maxRetries =
              Inr \<lparr>tr_id = videoId, tr_text = transcript_text docs, tr_docs = docs\<rparr>"
    using fetchTranscript_result [OF assms(1,2), of load language maxRetries] assms(3) h by auto
next
  assume "\<forall>doc \<in> set docs. doc_pageContent doc = None \<or> doc_pageContent doc = Some []"
  then show "transcript_text docs = []"
    by (rule transcript_text_all_empty)
qed

theorem fetchTranscript_failures_witness:
  "fetchTranscript failing_loader ''dQw4w9WgXcQ'' ''en'' 3 =
     Inl (fetchFailure ''dQw4w9WgXcQ'' ''Transcript is disabled on this video'') \<and>
   fetchTranscript flaky_loader ''dQw4w9WgXcQ'' ''en'' 3 =
     Inl (fetchFailure ''dQw4w9WgXcQ'' ''No transcript found for video: dQw4w9WgXcQ'') \<and>
   fetchTranscript empty_text_loader ''dQw4w9WgXcQ'' ''en'' 3 =
     Inr \<lparr>tr_id = ''dQw4w9WgXcQ'', tr_text = [],
          tr_docs = [\<lparr>doc_pageContent = Some []\<rparr>, \<lparr>doc_pageContent = None\<rparr>]\<rparr>"
proof -
  have ne: "''dQw4w9WgXcQ'' \<noteq> []" by simp
  note t = fetchTranscript_failures [OF extractVideoId_example ne refl]
  have 1: "fetchTranscript failing_loader ''dQw4w9WgXcQ'' ''en'' 3 =
     Inl (fetchFailure ''dQw4w9WgXcQ'' ''Transcript is disabled on this video'')"
    using t [where load = failing_loader and language = "''en''" and maxRetries = 3] by (simp add: failing_loader_def)
  have 2: "fetchTranscript flaky_loader ''dQw4w9WgXcQ'' ''en'' 3 =
     Inl (fetchFailure ''dQw4w9WgXcQ'' ''No transcript found for video: dQw4w9WgXcQ'')"
    using t [where load = flaky_loader and language = "''en''" and maxRetries = 3 and j = 2] by (simp add: flaky_loader_def)
  have 3: "fetchTranscript empty_text_loader ''dQw4w9WgXcQ'' ''en'' 3 =
     Inr \<lparr>tr_id = ''dQw4w9WgXcQ'', tr_text = [],
          tr_docs = [\<lparr>doc_pageContent = Some []\<rparr>, \<lparr>doc_pageContent = None\<rparr>]\<rparr>"
    using t [where load = empty_text_loader and language = "''en''" and maxRetries = 3 and j = 0
        and docs = "[\<lparr>doc_pageContent = Some []\<rparr>, \<lparr>doc_pageContent = None\<rparr>]"]
    by (simp add: empty_text_loader_def)
  from 1 2 3 show ?thesis by blast
qed


section \<open>Retrieval: \<open>queryRag\<close>\<close>

subsection \<open>Definitions\<close>

text \<open>\<open>formatTimestamp\<close>, for a start time in whole seconds.\<close>

definition padStart2 :: "string \<Rightarrow> string" where
  "padStart2 s = replicate (2 - length s) CHR ''0'' @ s"

definition formatTimestamp :: "nat \<Rightarrow> string" where
  "formatTimestamp seconds = show_nat (seconds div 60) @ '':'' @ padStart2 (show_nat (seconds mod 60))"

record 's query_result =
  contextText :: string
  results :: "(document \<times> 's) list"
  compressionUsed :: bool

text \<open>One section of the context; \<open>relevance score\<close> stands for
  \<open>(score * 100).toFixed(1)\<close>.\<close>

definition formatExcerpt :: "('s \<Rightarrow> string) \<Rightarrow> nat \<Rightarrow> document \<times> 's \<Rightarrow> string" where
  "formatExcerpt relevance index hit =
     ''Excerpt #'' @ show_nat (index + 1) @ '' '' @
     (case startTime (fst hit) of None \<Rightarrow> [] | Some t \<Rightarrow> ''['' @ formatTimestamp t @ '']'') @
     '' (relevance: '' @ relevance (snd hit) @ ''%):'' @ [CHR 0x0A] @
     pageContent (fst hit) @ [CHR 0x0A]"

definition formatContext :: "('s \<Rightarrow> string) \<Rightarrow> (document \<times> 's) list \<Rightarrow> string" where
  "formatContext relevance hits =
     js_join ([CHR 0x0A] @ ''---'' @ [CHR 0x0A])
       (map (\<lambda>(index, hit). formatExcerpt relevance index hit) (enumerate 0 hits))"

text \<open>The compression step of \<open>queryRag\<close>: every hit gets the text that \<open>quickCompress\<close>
  computed for its document and keeps its score; hits whose text is blank are dropped,
  and the first \<open>k\<close> remain.\<close>

definition compressHits :: "(document \<times> 's) list \<Rightarrow> string \<Rightarrow> nat \<Rightarrow> (document \<times> 's) list" where
  "compressHits resultsWithScores question k =
     take k
       (filter (\<lambda>(doc, sc). length (trim (pageContent doc)) > 0)
          (map (\<lambda>((doc, compressed), (original, sc)). (doc\<lparr>pageContent := compressed\<rparr>, sc))
             (zip (quickCompress (map fst resultsWithScores) question 3) resultsWithScores)))"

text \<open>
  \<open>queryRag\<close>. The vector store is a parameter: \<open>backend videoId\<close> is what obtaining the
  index and \<open>PineconeStore.fromExistingIndex\<close> with that namespace do, an error or a
  store, and the store maps a question and a number of hits to what
  \<open>similaritySearchWithScore\<close> does, an error or the hits with their scores.
\<close>

type_synonym 's vector_store = "string \<Rightarrow> nat \<Rightarrow> js_error + (document \<times> 's) list"

definition queryRag ::
    "(string \<Rightarrow> js_error + 's vector_store) \<Rightarrow> ('s \<Rightarrow> string) \<Rightarrow>
     string \<Rightarrow> string \<Rightarrow> nat \<Rightarrow> bool \<Rightarrow> js_error + 's query_result" where
  "queryRag backend relevance videoId question k useCompression =
     (case backend videoId of
        Inl error \<Rightarrow> Inl error
      | Inr vectorStore \<Rightarrow>
          (let retrievalK = (if useCompression then min (k * 2) 10 else k)
           in case vectorStore question retrievalK of
                Inl error \<Rightarrow> Inl error
              | Inr resultsWithScores \<Rightarrow>
                  (let processedResults =
                         (if useCompression \<and> length resultsWithScores > 0
                          then compressHits resultsWithScores question k
                          else resultsWithScores)
                   in Inr \<lparr>contextText = formatContext relevance processedResults,
                           results = processedResults,
                           compressionUsed = useCompression\<rparr>)))"

text \<open>A vector index as a map from namespaces to their stored hits, and a backend over
  it whose search returns the first hits of the namespace and no hits for a namespace
  that does not exist.\<close>

definition index_backend :: "(string \<rightharpoonup> (document \<times> 's) list) \<Rightarrow> string \<Rightarrow> js_error + 's vector_store" where
  "index_backend index namespace =
     Inr (\<lambda>question n. Inr (take n (case index namespace of None \<Rightarrow> [] | Some hits \<Rightarrow> hits)))"

definition permille :: "nat \<Rightarrow> string" where
  "permille sc = show_nat (sc div 10) @ ''.'' @ show_nat (sc mod 10)"

definition example_hits :: "(document \<times> nat) list" where
  "example_hits =
     [(\<lparr>pageContent = ''Gradient descent minimizes the loss.'', startTime = Some 75\<rparr>, 873),
      (\<lparr>pageContent = ''The learning rate controls the step.'', startTime = None\<rparr>, 640)]"

subsection \<open>Failures of \<open>queryRag\<close>\<close>

lemma formatContext_Nil [simp]: "formatContext relevance [] = []"
  by (simp add: formatContext_def)

lemma example_query:
  "queryRag (index_backend [''dQw4w9WgXcQ'' \<mapsto> example_hits]) permille ''dQw4w9WgXcQ'' ''gradient'' 4 False =
     Inr \<lparr>contextText =
            ''Excerpt #1 [1:15] (relevance: 87.3%):'' @ [CHR 0x0A] @
            ''Gradient descent minimizes the loss.'' @ [CHR 0x0A, CHR 0x0A] @ ''---'' @ [CHR 0x0A] @
            ''Excerpt #2  (relevance: 64.0%):'' @ [CHR 0x0A] @
            ''The learning rate controls the step.'' @ [CHR 0x0A],
          results = example_hits, compressionUsed = False\<rparr>"
  by code_simp

text \<open>
  Claim C6, as stated, fails: \<open>queryRag\<close> never checks that the namespace exists. Over a
  vector store whose search finds nothing in a namespace that was never written, a query
  for a video without a namespace returns the same successful result, with zero hits, as
  a query for a video whose namespace exists and is empty.
\<close>

theorem queryRag_missing_namespace_counterexample:
  "queryRag (index_backend (Map.empty :: string \<rightharpoonup> (document \<times> nat) list)) permille
       ''dQw4w9WgXcQ'' ''gradient'' 4 False =
     Inr \<lparr>contextText = [], results = [], compressionUsed = False\<rparr> \<and>
   queryRag (index_backend [''dQw4w9WgXcQ'' \<mapsto> ([] :: (document \<times> nat) list)]) permille
       ''dQw4w9WgXcQ'' ''gradient'' 4 False =
     Inr \<lparr>contextText = [], results = [], compressionUsed = False\<rparr>"
  by (simp add: queryRag_def index_backend_def)

text \<open>
  Claim C6, amended. \<open>queryRag\<close> fails exactly when obtaining the store or the
  similarity search throws, and then with that very error (it is not turned into a
  \<open>QueryError\<close>); it makes no check of the namespace. Whenever the search returns no
  hits, it succeeds with an empty context and zero results.
\<close>

theorem queryRag_failures:
  "(backend videoId = Inl error \<longrightarrow>
      queryRag backend relevance videoId question k useCompression = Inl error) \<and>
   (backend videoId = Inr vectorStore \<and>
    vectorStore question (if useCompression then min (k * 2) 10 else k) = Inl error \<longrightarrow>
      queryRag backend relevance videoId question k useCompression = Inl error) \<and>
   (backend videoId = Inr vectorStore \<and>
    vectorStore question (if useCompression then min (k * 2) 10 else k) = Inr [] \<longrightarrow>
      queryRag backend relevance videoId question k useCompression =
        Inr \<lparr>contextText = [], results = [], compressionUsed = useCompression\<rparr>) \<and>
   ((\<exists>e. queryRag backend relevance videoId question k useCompression = Inl e) \<longleftrightarrow>
    (\<exists>e. backend videoId = Inl e) \<or>
    (\<exists>store e. backend videoId = Inr store \<and>
       store question (if useCompression then min (k * 2) 10 else k) = Inl e))"
proof (intro conjI impI)
  show "queryRag backend relevance videoId question k useCompression = Inl error"
    if "backend videoId = Inl error"
    using that by (simp add: queryRag_def)
  show "queryRag backend relevance videoId question k useCompression = Inl error"
    if "backend videoId = Inr vectorStore \<and>
        vectorStore question (if useCompression then min (k * 2) 10 else k) = Inl error"
    using that by (simp add: queryRag_def Let_def)
  show "queryRag backend relevance videoId question k useCompression =
        Inr \<lparr>contextText = [], results = [], compressionUsed = useCompression\<rparr>"
    if "backend videoId = Inr vectorStore \<and>
        vectorStore question (if useCompression then min (k * 2) 10 else k) = Inr []"
    using that by (simp add: queryRag_def Let_def)
  show "(\<exists>e. queryRag backend relevance videoId question k useCompression = Inl e) \<longleftrightarrow>
    (\<exists>e. backend videoId = Inl e) \<or>
    (\<exists>store e. backend videoId = Inr store \<and>
       store question (if useCompression then min (k * 2) 10 else k) = Inl e)"
    by (auto simp: queryRag_def Let_def split: sum.splits)
qed

definition unreachable_backend :: "string \<Rightarrow> js_error + nat vector_store" where
  "unreachable_backend = (\<lambda>namespace. Inl (JsError ''PineconeConnectionError'' ''Request failed to reach Pinecone''))"

definition failing_search_backend :: "string \<Rightarrow> js_error + nat vector_store" where
  "failing_search_backend = (\<lambda>namespace. Inr (\<lambda>question n. Inl (JsError ''Error'' ''Embedding request failed'')))"

theorem queryRag_failures_witness:
  "queryRag unreachable_backend permille ''dQw4w9WgXcQ'' ''gradient'' 4 False =
     Inl (JsError ''PineconeConnectionError'' ''Request failed to reach Pinecone'') \<and>
   queryRag failing_search_backend permille ''dQw4w9WgXcQ'' ''gradient'' 4 True =
     Inl (JsError ''Error'' ''Embedding request failed'') \<and>
   queryRag (index_backend [''dQw4w9WgXcQ'' \<mapsto> ([] :: (document \<times> nat) list)]) permille
       ''dQw4w9WgXcQ'' ''gradient'' 4 True =
     Inr \<lparr>contextText = [], results = [], compressionUsed = True\<rparr>"
proof -
  have 1: "queryRag unreachable_backend permille ''dQw4w9WgXcQ'' ''gradient'' 4 False =
     Inl (JsError ''PineconeConnectionError'' ''Request failed to reach Pinecone'')"
    using queryRag_failures [where backend = unreachable_backend and videoId = "''dQw4w9WgXcQ''"
        and error = "JsError ''PineconeConnectionError'' ''Request failed to reach Pinecone''"]
    by (simp add: unreachable_backend_def)
  have 2: "queryRag failing_search_backend permille ''dQw4w9WgXcQ'' ''gradient'' 4 True =
     Inl (JsError ''Error'' ''Embedding request failed'')"
    using queryRag_failures [where backend = failing_search_backend and videoId = "''dQw4w9WgXcQ''"
        and vectorStore = "\<lambda>question n. Inl (JsError ''Error'' ''Embedding request failed'')"
        and error = "JsError ''Error'' ''Embedding request failed''" and useCompression = True
        and question = "''gradient''" and k = 4]
    by (simp add: failing_search_backend_def)
  have 3: "queryRag (index_backend [''dQw4w9WgXcQ'' \<mapsto> ([] :: (document \<times> nat) list)]) permille
       ''dQw4w9WgXcQ'' ''gradient'' 4 True =
     Inr \<lparr>contextText = [], results = [], compressionUsed = True\<rparr>"
    using queryRag_failures [where backend = "index_backend [''dQw4w9WgXcQ'' \<mapsto> ([] :: (document \<times> nat) list)]"
        and videoId = "''dQw4w9WgXcQ''" and vectorStore = "\<lambda>question n. Inr []"
        and useCompression = True and question = "''gradient''" and k = 4]
    by (simp add: index_backend_def)
  from 1 2 3 show ?thesis by blast
qed

section \<open>Identifier extraction: what \<open>extractVideoId\<close> returns\<close>

subsection \<open>The matcher on the URL patterns\<close>

lemma lit_rest_append [simp]: "lit_rest False l (l @ s) = Some s"
  by (induction l) (simp_all add: chr_eq_def)

lemma lit_rest_SomeD: "lit_rest False l s = Some s' \<Longrightarrow> s = l @ s'"
proof (induction l arbitrary: s)
  case Nil
  then show ?case by simp
next
  case (Cons a l)
  then show ?case
    by (cases s) (auto simp: chr_eq_def split: if_splits)
qed

lemma ms_Rep_Cls:
  "ms ic (Rep n (Cls rs)) (p, s, g) =
     (if n \<le> length s \<and> (\<forall>c \<in> set (take n s). in_class rs c) then [(p + n, drop n s, g)] else [])"
proof (induction n arbitrary: p s)
  case 0
  then show ?case by simp
next
  case (Suc n)
  show ?case
  proof (cases s)
    case Nil
    then show ?thesis by simp
  next
    case (Cons c cs)
    then show ?thesis by (simp add: Suc)
  qed
qed

lemma ms_Star_Dot_Nil: "ms ic (Star Dot) (p, [], g) = [(p, [], g)]"
  by simp

lemma ms_Star_Dot_Cons:
  "ms ic (Star Dot) (p, c # cs, g) =
     (if line_terminator c then [(p, c # cs, g)]
      else ms ic (Star Dot) (Suc p, cs, g) @ [(p, c # cs, g)])"
  by simp

lemma ms_Star_Dot_Eol:
  "concat (map (ms ic Eol) (ms ic (Star Dot) (p, t, g))) =
     (if \<forall>c \<in> set t. \<not> line_terminator c then [(p + length t, [], g)] else [])"
proof (induction t arbitrary: p)
  case Nil
  show ?case by (simp only: ms_Star_Dot_Nil) simp
next
  case (Cons c cs)
  show ?case
  proof (cases "line_terminator c")
    case True
    then show ?thesis by (simp only: ms_Star_Dot_Cons) simp
  next
    case False
    have "concat (map (ms ic Eol) (ms ic (Star Dot) (p, c # cs, g))) =
            concat (map (ms ic Eol) (ms ic (Star Dot) (Suc p, cs, g))) @ ms ic Eol (p, c # cs, g)"
      using False by (simp only: ms_Star_Dot_Cons if_False map_append concat_append) simp
    also have "\<dots> = (if \<forall>c \<in> set cs. \<not> line_terminator c then [(Suc p + length cs, [], g)] else [])"
      unfolding Cons.IH by simp
    finally show ?thesis using False by simp
  qed
qed

definition is_video_id :: "string \<Rightarrow> bool" where
  "is_video_id v \<longleftrightarrow> length v = 11 \<and> list_all (in_class id_class) v"

text \<open>A query tail: nothing, or one of the given first characters followed by
  characters other than line terminators.\<close>

definition query_tail_ok :: "char list \<Rightarrow> string \<Rightarrow> bool" where
  "query_tail_ok firsts t \<longleftrightarrow>
     (case t of [] \<Rightarrow> True | c # cs \<Rightarrow> c \<in> set firsts \<and> list_all (\<lambda>x. \<not> line_terminator x) cs)"

lemma ms_amp_tail_Eol:
  assumes "query_tail_ok ''&?'' t"
  shows "ms False (Seq amp_tail Eol) (p, t, g) = [(p + length t, [], g)]"
proof (cases t)
  case Nil
  then show ?thesis by (simp add: amp_tail_def)
next
  case (Cons c cs)
  with assms have c: "in_class [(CHR ''&'', CHR ''&''), (CHR ''?'', CHR ''?'')] c"
    and cs: "\<forall>x \<in> set cs. \<not> line_terminator x"
    by (auto simp: query_tail_ok_def in_class_def list_all_iff)
  show ?thesis
    using ms_Star_Dot_Eol [of False "Suc p" cs g] c cs Cons
    by (simp add: amp_tail_def)
qed

lemma ms_query_tail_Eol:
  assumes "query_tail_ok ''?'' t"
  shows "ms False (Seq query_tail Eol) (p, t, g) = [(p + length t, [], g)]"
proof (cases t)
  case Nil
  then show ?thesis by (simp add: query_tail_def)
next
  case (Cons c cs)
  with assms have c: "c = CHR ''?''"
    and cs: "\<forall>x \<in> set cs. \<not> line_terminator x"
    by (auto simp: query_tail_ok_def list_all_iff)
  show ?thesis
    using ms_Star_Dot_Eol [of False "Suc p" cs g] c cs Cons
    by (simp add: query_tail_def chr_eq_def)
qed

lemma ms_id_group:
  assumes "is_video_id v"
  shows "ms False id_group (p, v @ t, g) = [(p + 11, t, Some v)]"
  using assms by (simp add: id_group_def ms_Rep_Cls is_video_id_def list_all_iff)

definition url_scheme :: "string \<Rightarrow> bool" where
  "url_scheme s \<longleftrightarrow> s = [] \<or> s = ''http://'' \<or> s = ''https://''"

definition url_www :: "string \<Rightarrow> bool" where
  "url_www s \<longleftrightarrow> s = [] \<or> s = ''www.''"

text \<open>Whatever a match consumes is a prefix of the input: the input that remains after a
  match is a suffix of the input before it.\<close>

definition consumed :: "mstate \<Rightarrow> mstate \<Rightarrow> bool" where
  "consumed st st' \<longleftrightarrow> (\<exists>u. fst (snd st) = u @ fst (snd st'))"

lemma consumed_refl [simp]: "consumed st st"
  by (simp add: consumed_def)

lemma consumed_trans: "consumed a b \<Longrightarrow> consumed b c \<Longrightarrow> consumed a c"
  by (auto simp: consumed_def)

lemma lit_rest_suffix: "lit_rest ic l s = Some s' \<Longrightarrow> \<exists>u. s = u @ s'"
proof (induction l arbitrary: s)
  case Nil
  then show ?case by simp
next
  case (Cons a l)
  then show ?case
    by (cases s) (force split: if_splits)+
qed

lemma ms_consumed: "st' \<in> set (ms ic r st) \<Longrightarrow> consumed st st'"
proof (induction ic r st arbitrary: st' rule: ms.induct)
  case (1 ic a p s g)
  then show ?case by (auto simp: consumed_def split: list.splits if_splits)
next
  case (2 ic l p s g)
  then show ?case
    using lit_rest_suffix [of ic l s] by (auto simp: consumed_def split: option.splits)
next
  case (3 ic rs p s g)
  then show ?case by (auto simp: consumed_def split: list.splits if_splits)
next
  case (4 ic p s g)
  then show ?case by (auto simp: consumed_def split: list.splits if_splits)
next
  case (5 ic p s g)
  then show ?case by (auto split: if_splits)
next
  case (6 ic p s g)
  then show ?case by (auto split: if_splits)
next
  case (7 ic r1 r2 st)
  from 7(3) obtain st1 where "st1 \<in> set (ms ic r1 st)" "st' \<in> set (ms ic r2 st1)"
    by auto
  then show ?case using 7(1,2) consumed_trans by blast
next
  case (8 ic r1 r2 st)
  from 8(3) have "st' \<in> set (ms ic r1 st) \<or> st' \<in> set (ms ic r2 st)"
    by simp
  with 8(1) [of st'] 8(2) [of st'] show ?case by blast
next
  case (9 ic r st)
  from 9(2) have "st' \<in> set (ms ic r st) \<or> st' = st"
    by auto
  with 9(1) [of st'] show ?case by auto
next
  case (10 ic r p s g)
  from 10(3) consider "st' = (p, s, g)"
    | st1 where "st1 \<in> set (ms ic r (p, s, g))" "length (fst (snd st1)) < length s"
        "st' \<in> set (ms ic (Star r) st1)"
    by (auto split: if_splits)
  then show ?case
  proof cases
    case 1
    then show ?thesis by simp
  next
    case 2
    then show ?thesis using 10(1,2) consumed_trans by blast
  qed
next
  case (11 ic r st)
  then show ?case by simp
next
  case (12 ic n r st)
  from 12(3) obtain st1 where "st1 \<in> set (ms ic r st)" "st' \<in> set (ms ic (Rep n r) st1)"
    by auto
  then show ?case using 12(1,2) consumed_trans by blast
next
  case (13 ic r p s g)
  then show ?case by (fastforce simp: consumed_def)
qed

text \<open>A match of an expression without a group leaves the captured text as it is.\<close>

fun no_group :: "regex \<Rightarrow> bool" where
  "no_group (Grp r) = False"
| "no_group (Seq r1 r2) = (no_group r1 \<and> no_group r2)"
| "no_group (Alt r1 r2) = (no_group r1 \<and> no_group r2)"
| "no_group (Opt r) = no_group r"
| "no_group (Star r) = no_group r"
| "no_group (Rep n r) = no_group r"
| "no_group r = True"

lemma ms_no_group: "no_group r \<Longrightarrow> st' \<in> set (ms ic r st) \<Longrightarrow> snd (snd st') = snd (snd st)"
proof (induction ic r st arbitrary: st' rule: ms.induct)
  case (1 ic a p s g)
  then show ?case by (auto split: list.splits if_splits)
next
  case (2 ic l p s g)
  then show ?case by (auto split: option.splits)
next
  case (3 ic rs p s g)
  then show ?case by (auto split: list.splits if_splits)
next
  case (4 ic p s g)
  then show ?case by (auto split: list.splits if_splits)
next
  case (5 ic p s g)
  then show ?case by (auto split: if_splits)
next
  case (6 ic p s g)
  then show ?case by (auto split: if_splits)
next
  case (7 ic r1 r2 st)
  from 7(4) obtain st1 where st1: "st1 \<in> set (ms ic r1 st)" "st' \<in> set (ms ic r2 st1)"
    by auto
  with 7(1) [of st1] 7(2) [of st1 st'] 7(3) show ?case by simp
next
  case (8 ic r1 r2 st)
  from 8(4) have "st' \<in> set (ms ic r1 st) \<or> st' \<in> set (ms ic r2 st)"
    by simp
  with 8(1) [of st'] 8(2) [of st'] 8(3) show ?case by auto
next
  case (9 ic r st)
  from 9(3) have "st' \<in> set (ms ic r st) \<or> st' = st"
    by auto
  with 9(1) [of st'] 9(2) show ?case by auto
next
  case (10 ic r p s g)
  from 10(4) consider "st' = (p, s, g)"
    | st1 where "st1 \<in> set (ms ic r (p, s, g))" "length (fst (snd st1)) < length s"
        "st' \<in> set (ms ic (Star r) st1)"
    by (auto split: if_splits)
  then show ?case
  proof cases
    case 1
    then show ?thesis by simp
  next
    case 2
    with 10(1) [of st1] 10(2) [of st1 st'] 10(3) show ?thesis by simp
  qed
next
  case (11 ic r st)
  then show ?case by simp
next
  case (12 ic n r st)
  from 12(4) obtain st1 where st1: "st1 \<in> set (ms ic r st)" "st' \<in> set (ms ic (Rep n r) st1)"
    by auto
  with 12(1) [of st1] 12(2) [of st1 st'] 12(3) show ?case by simp
next
  case (13 ic r p s g)
  then show ?case by simp
qed


subsection \<open>The search for the leftmost match\<close>

lemma exec_from_SomeD:
  "exec_from ic r p s = Some st \<Longrightarrow> \<exists>k \<le> length s. st \<in> set (ms ic r (p + k, drop k s, None))"
proof (induction s arbitrary: p)
  case Nil
  then show ?case by (auto split: list.splits)
next
  case (Cons c cs)
  show ?case
  proof (cases "ms ic r (p, c # cs, None)")
    case Nil
    with Cons.prems have "exec_from ic r (Suc p) cs = Some st" by simp
    then obtain k where "k \<le> length cs" "st \<in> set (ms ic r (Suc p + k, drop k cs, None))"
      using Cons.IH by blast
    then have "Suc k \<le> length (c # cs) \<and> st \<in> set (ms ic r (p + Suc k, drop (Suc k) (c # cs), None))"
      by simp
    then show ?thesis by blast
  next
    case (Cons st0 sts)
    with Cons.prems have "st = st0" by simp
    with Cons have "0 \<le> length (c # cs) \<and> st \<in> set (ms ic r (p + 0, drop 0 (c # cs), None))"
      by simp
    then show ?thesis by blast
  qed
qed

lemma startsWith_append [simp]: "startsWith (n @ v) n"
  by (induction n) simp_all

lemma js_includes_append: "js_includes (u @ n @ v) n"
proof (induction u)
  case Nil
  show ?case
  proof (cases "n @ v")
    case Nil
    then show ?thesis by simp
  next
    case (Cons a list)
    have "startsWith (n @ v) n" by simp
    then show ?thesis unfolding append_Nil Cons by simp
  qed
next
  case (Cons a u)
  then show ?case by simp
qed

lemma js_includes_self: "js_includes s s"
  using js_includes_append [of "[]" s "[]"] by simp

text \<open>A pattern that has a literal after group-free optional parts only matches where
  the literal occurs, and a match of the identifier group captures 11 identifier
  characters of the input.\<close>

lemma ms_Seq_D:
  "st' \<in> set (ms ic (Seq r1 r2) st) \<Longrightarrow>
   \<exists>st1. st1 \<in> set (ms ic r1 st) \<and> consumed st st1 \<and> st' \<in> set (ms ic r2 st1)"
proof -
  assume "st' \<in> set (ms ic (Seq r1 r2) st)"
  then obtain st1 where "st1 \<in> set (ms ic r1 st)" "st' \<in> set (ms ic r2 st1)"
    by auto
  then show ?thesis using ms_consumed by blast
qed

lemma ms_Lit_D:
  assumes "st' \<in> set (ms False (Seq (Lit host) r) st)"
  shows "\<exists>x st1. fst (snd st) = host @ x \<and> fst (snd st1) = x \<and> st' \<in> set (ms False r st1)"
proof -
  obtain p s g where st: "st = (p, s, g)" by (cases st)
  show ?thesis
  proof (cases "lit_rest False host s")
    case None
    with assms st show ?thesis by simp
  next
    case (Some x)
    with assms st have "st' \<in> set (ms False r (p + length host, x, g))"
      by simp
    moreover have "s = host @ x"
      using Some by (rule lit_rest_SomeD)
    ultimately show ?thesis
      using st by (intro exI [of _ x] exI [of _ "(p + length host, x, g)"]) simp
  qed
qed

lemma ms_id_group_D:
  assumes "st' \<in> set (ms False (Seq id_group r) st)" and "no_group r"
  shows "\<exists>v x. snd (snd st') = Some v \<and> is_video_id v \<and> fst (snd st) = v @ x"
proof -
  obtain p s g where st: "st = (p, s, g)" by (cases st)
  from assms(1) obtain st1 where st1: "st1 \<in> set (ms False id_group st)" "st' \<in> set (ms False r st1)"
    by auto
  from st1(1) st have ok: "11 \<le> length s" "\<forall>c \<in> set (take 11 s). in_class id_class c"
    and eq: "st1 = (p + 11, drop 11 s, Some (take 11 s))"
    by (auto simp: id_group_def ms_Rep_Cls split: if_splits)
  from ms_no_group [OF assms(2) st1(2)] eq have "snd (snd st') = Some (take 11 s)"
    by simp
  moreover have "is_video_id (take 11 s)"
    using ok by (simp add: is_video_id_def list_all_iff)
  moreover have "s = take 11 s @ drop 11 s"
    by simp
  ultimately show ?thesis
    using st by (metis fst_conv snd_conv)
qed

lemma no_group_tails [simp]:
  "no_group (Seq amp_tail Eol)" "no_group (Seq query_tail Eol)"
  by (simp_all add: amp_tail_def query_tail_def)

lemma pattern2_D:
  assumes "st' \<in> set (ms False (Seq a (Seq b (Seq (Lit host) (Seq id_group r)))) st)" and "no_group r"
  shows "\<exists>u v x. fst (snd st) = u @ host @ v @ x \<and> snd (snd st') = Some v \<and> is_video_id v"
proof -
  from ms_Seq_D [OF assms(1)] obtain st1 where
    1: "consumed st st1" "st' \<in> set (ms False (Seq b (Seq (Lit host) (Seq id_group r))) st1)"
    by blast
  from ms_Seq_D [OF 1(2)] obtain st2 where
    2: "consumed st1 st2" "st' \<in> set (ms False (Seq (Lit host) (Seq id_group r)) st2)"
    by blast
  from ms_Lit_D [OF 2(2)] obtain x st3 where
    3: "fst (snd st2) = host @ x" "fst (snd st3) = x" "st' \<in> set (ms False (Seq id_group r) st3)"
    by blast
  from ms_id_group_D [OF 3(3) assms(2)] obtain v y where
    4: "snd (snd st') = Some v" "is_video_id v" "fst (snd st3) = v @ y"
    by blast
  from consumed_trans [OF 1(1) 2(1)] obtain u where "fst (snd st) = u @ fst (snd st2)"
    by (auto simp: consumed_def)
  with 3 4 show ?thesis by auto
qed

lemma pattern1_D:
  assumes "st' \<in> set (ms False (Seq a (Seq (Lit host) (Seq id_group r))) st)" and "no_group r"
  shows "\<exists>u v x. fst (snd st) = u @ host @ v @ x \<and> snd (snd st') = Some v \<and> is_video_id v"
proof -
  from ms_Seq_D [OF assms(1)] obtain st2 where
    2: "consumed st st2" "st' \<in> set (ms False (Seq (Lit host) (Seq id_group r)) st2)"
    by blast
  from ms_Lit_D [OF 2(2)] obtain x st3 where
    3: "fst (snd st2) = host @ x" "fst (snd st3) = x" "st' \<in> set (ms False (Seq id_group r) st3)"
    by blast
  from ms_id_group_D [OF 3(3) assms(2)] obtain v y where
    4: "snd (snd st') = Some v" "is_video_id v" "fst (snd st3) = v @ y"
    by blast
  from 2(1) obtain u where "fst (snd st) = u @ fst (snd st2)"
    by (auto simp: consumed_def)
  with 3 4 show ?thesis by auto
qed

text \<open>The host literal of each pattern.\<close>

definition pattern_host :: "regex \<Rightarrow> string" where
  "pattern_host r =
     (if r = pattern_standard then ''youtube.com/watch?v=''
      else if r = pattern_short then ''youtu.be/''
      else if r = pattern_embed then ''youtube.com/embed/''
      else ''m.youtube.com/watch?v='')"

lemma pattern_hosts [simp]:
  "pattern_host pattern_standard = ''youtube.com/watch?v=''"
  "pattern_host pattern_short = ''youtu.be/''"
  "pattern_host pattern_embed = ''youtube.com/embed/''"
  "pattern_host pattern_mobile = ''m.youtube.com/watch?v=''"
  by (simp_all add: pattern_host_def pattern_standard_def pattern_short_def pattern_embed_def
        pattern_mobile_def)

lemma url_pattern_D:
  assumes "pattern \<in> set YOUTUBE_URL_PATTERNS" and "st' \<in> set (ms False pattern st)"
  shows "\<exists>u v x. fst (snd st) = u @ pattern_host pattern @ v @ x \<and> snd (snd st') = Some v \<and> is_video_id v"
proof -
  from assms(1) consider "pattern = pattern_standard" | "pattern = pattern_short"
    | "pattern = pattern_embed" | "pattern = pattern_mobile"
    by (auto simp: YOUTUBE_URL_PATTERNS_def)
  then show ?thesis
  proof cases
    case 1
    from assms(2) have "st' \<in> set (ms False (Seq scheme_opt (Seq www_opt
        (Seq (Lit ''youtube.com/watch?v='') (Seq id_group (Seq amp_tail Eol))))) st)"
      unfolding 1 pattern_standard_def .
    from pattern2_D [OF this no_group_tails(1)] show ?thesis
      unfolding 1 pattern_hosts .
  next
    case 2
    from assms(2) have "st' \<in> set (ms False (Seq scheme_opt (Seq www_opt
        (Seq (Lit ''youtu.be/'') (Seq id_group (Seq query_tail Eol))))) st)"
      unfolding 2 pattern_short_def .
    from pattern2_D [OF this no_group_tails(2)] show ?thesis
      unfolding 2 pattern_hosts .
  next
    case 3
    from assms(2) have "st' \<in> set (ms False (Seq scheme_opt (Seq www_opt
        (Seq (Lit ''youtube.com/embed/'') (Seq id_group (Seq query_tail Eol))))) st)"
      unfolding 3 pattern_embed_def .
    from pattern2_D [OF this no_group_tails(2)] show ?thesis
      unfolding 3 pattern_hosts .
  next
    case 4
    from assms(2) have "st' \<in> set (ms False (Seq scheme_opt
        (Seq (Lit ''m.youtube.com/watch?v='') (Seq id_group (Seq amp_tail Eol)))) st)"
      unfolding 4 pattern_mobile_def .
    from pattern1_D [OF this no_group_tails(1)] show ?thesis
      unfolding 4 pattern_hosts .
  qed
qed

lemma url_pattern_exec:
  assumes "pattern \<in> set YOUTUBE_URL_PATTERNS" and "exec_from False pattern 0 s = Some (p, rest, captured)"
  shows "\<exists>u v x. s = u @ pattern_host pattern @ v @ x \<and> captured = Some v \<and> is_video_id v"
proof -
  from exec_from_SomeD [OF assms(2)] obtain k where
    k: "(p, rest, captured) \<in> set (ms False pattern (0 + k, drop k s, None))"
    by blast
  from url_pattern_D [OF assms(1) k] obtain u v x where
    "drop k s = u @ pattern_host pattern @ v @ x" "captured = Some v" "is_video_id v"
    by auto
  moreover from this have "s = (take k s @ u) @ pattern_host pattern @ v @ x"
    by (metis append.assoc append_take_drop_id)
  ultimately show ?thesis by blast
qed

lemma url_pattern_no_host:
  assumes "pattern \<in> set YOUTUBE_URL_PATTERNS" and "\<not> js_includes s (pattern_host pattern)"
  shows "exec_from False pattern 0 s = None"
proof (cases "exec_from False pattern 0 s")
  case None
  then show ?thesis .
next
  case (Some st)
  obtain p rest captured where "st = (p, rest, captured)" by (cases st)
  with Some url_pattern_exec [OF assms(1)] obtain u v x where "s = u @ pattern_host pattern @ v @ x"
    by blast
  then have "js_includes s (pattern_host pattern)"
    using js_includes_append [of u "pattern_host pattern" "v @ x"] by simp
  with assms(2) show ?thesis by simp
qed


subsection \<open>\<open>extractVideoId\<close> on identifiers and on the URL shapes\<close>

lemma bare_at_start:
  "ms False bare_id_pattern (0, s, None) = (if is_video_id s then [(11, [], None)] else [])"
proof -
  have "(11 \<le> length s \<and> (\<forall>c \<in> set (take 11 s). in_class id_class c)) \<and> drop 11 s = [] \<longleftrightarrow>
        is_video_id s"
    by (auto simp: is_video_id_def list_all_iff)
  then show ?thesis
    by (auto simp: bare_id_pattern_def ms_Rep_Cls)
qed

lemma bare_later: "0 < p \<Longrightarrow> exec_from False bare_id_pattern p s = None"
  by (induction s arbitrary: p) (simp_all add: bare_id_pattern_def)

lemma bare_test: "re_test False bare_id_pattern s = is_video_id s"
  by (cases s) (simp_all add: re_test_def bare_at_start bare_later)

lemma trim_nonempty:
  assumes "c \<in> set s" and "\<not> is_ws c"
  shows "trim s \<noteq> []"
proof -
  let ?d = "dropWhile is_ws s"
  have ne: "?d \<noteq> []"
    using assms by (auto simp: dropWhile_eq_Nil_conv)
  then have "\<not> is_ws (hd ?d)"
    by (rule hd_dropWhile)
  moreover have "hd ?d \<in> set (rev ?d)"
    using ne by simp
  ultimately have "dropWhile is_ws (rev ?d) \<noteq> []"
    by (auto simp: dropWhile_eq_Nil_conv)
  then show ?thesis by (simp add: trim_def)
qed

lemma id_char_not_ws: "in_class id_class c \<Longrightarrow> \<not> is_ws c"
  by (auto simp: in_class_def id_class_def is_ws_def code_unit_def)

lemma extractVideoId_bare:
  assumes "is_video_id v"
  shows "extractVideoId v = Some v"
proof -
  from assms obtain c cs where v: "v = c # cs" and "in_class id_class c"
    by (cases v) (auto simp: is_video_id_def)
  then have "trim v \<noteq> []"
    using trim_nonempty [of c v] id_char_not_ws by simp
  with assms show ?thesis
    by (simp add: extractVideoId_def bare_test)
qed

lemma amp_tail_Eol_simp:
  "query_tail_ok ''&?'' t \<Longrightarrow> concat (map (ms False Eol) (ms False amp_tail (p, t, g))) = [(p + length t, [], g)]"
  using ms_amp_tail_Eol [of t p g] by simp

lemma query_tail_Eol_simp:
  "query_tail_ok ''?'' t \<Longrightarrow> concat (map (ms False Eol) (ms False query_tail (p, t, g))) = [(p + length t, [], g)]"
  using ms_query_tail_Eol [of t p g] by simp

lemma standard_exec:
  assumes "url_scheme scheme" and "url_www www" and "is_video_id v" and "query_tail_ok ''&?'' t"
  shows "\<exists>p. exec_from False pattern_standard 0 (scheme @ www @ ''youtube.com/watch?v='' @ v @ t) =
               Some (p, [], Some v)"
  using assms(1,2) unfolding url_scheme_def url_www_def
  by (elim disjE)
     (simp_all add: pattern_standard_def scheme_opt_def www_opt_def chr_eq_def
        ms_id_group [OF assms(3)] amp_tail_Eol_simp [OF assms(4)])

lemma mobile_exec:
  assumes "url_scheme scheme" and "is_video_id v" and "query_tail_ok ''&?'' t"
  shows "\<exists>p. exec_from False pattern_standard 0 (scheme @ ''m.youtube.com/watch?v='' @ v @ t) =
               Some (p, [], Some v)"
  using assms(1) unfolding url_scheme_def
  by (elim disjE)
     (simp_all add: pattern_standard_def scheme_opt_def www_opt_def chr_eq_def
        ms_id_group [OF assms(2)] amp_tail_Eol_simp [OF assms(3)])

lemma short_exec:
  assumes "url_scheme scheme" and "url_www www" and "is_video_id v" and "query_tail_ok ''?'' t"
  shows "\<exists>p. exec_from False pattern_short 0 (scheme @ www @ ''youtu.be/'' @ v @ t) =
               Some (p, [], Some v)"
  using assms(1,2) unfolding url_scheme_def url_www_def
  by (elim disjE)
     (simp_all add: pattern_short_def scheme_opt_def www_opt_def chr_eq_def
        ms_id_group [OF assms(3)] query_tail_Eol_simp [OF assms(4)])

lemma embed_exec:
  assumes "url_scheme scheme" and "url_www www" and "is_video_id v" and "query_tail_ok ''?'' t"
  shows "\<exists>p. exec_from False pattern_embed 0 (scheme @ www @ ''youtube.com/embed/'' @ v @ t) =
               Some (p, [], Some v)"
  using assms(1,2) unfolding url_scheme_def url_www_def
  by (elim disjE)
     (simp_all add: pattern_embed_def scheme_opt_def www_opt_def chr_eq_def
        ms_id_group [OF assms(3)] query_tail_Eol_simp [OF assms(4)])


lemma first_match_SomeD:
  "first_match patterns s = Some v \<Longrightarrow>
   \<exists>pattern \<in> set patterns. \<exists>p rest. exec_from False pattern 0 s = Some (p, rest, Some v)"
  by (induction patterns) (auto split: option.splits)

lemma not_id_with_dot: "CHR ''.'' \<in> set s \<Longrightarrow> \<not> is_video_id s"
proof -
  have "\<not> in_class id_class CHR ''.''"
    by (simp add: in_class_def id_class_def code_unit_def)
  then show "CHR ''.'' \<in> set s \<Longrightarrow> \<not> is_video_id s"
    by (auto simp: is_video_id_def list_all_iff)
qed

lemma not_blank_with_y: "CHR ''y'' \<in> set s \<Longrightarrow> trim s \<noteq> []"
  by (rule trim_nonempty [of "CHR ''y''"]) (simp_all add: is_ws_def code_unit_def)

lemma extractVideoId_url:
  assumes "CHR ''.'' \<in> set s" and "CHR ''y'' \<in> set s"
  shows "extractVideoId s = first_match YOUTUBE_URL_PATTERNS s"
  using not_id_with_dot [OF assms(1)] not_blank_with_y [OF assms(2)]
  by (simp add: extractVideoId_def bare_test)

lemma standard_no_match:
  "\<not> js_includes s ''youtube.com/watch?v='' \<Longrightarrow> exec_from False pattern_standard 0 s = None"
  using url_pattern_no_host [of pattern_standard s] by (simp add: YOUTUBE_URL_PATTERNS_def)

lemma short_no_match:
  "\<not> js_includes s ''youtu.be/'' \<Longrightarrow> exec_from False pattern_short 0 s = None"
  using url_pattern_no_host [of pattern_short s] by (simp add: YOUTUBE_URL_PATTERNS_def)

lemma embed_no_match:
  "\<not> js_includes s ''youtube.com/embed/'' \<Longrightarrow> exec_from False pattern_embed 0 s = None"
  using url_pattern_no_host [of pattern_embed s] by (simp add: YOUTUBE_URL_PATTERNS_def)

lemma mobile_no_match:
  assumes "\<not> js_includes s ''youtube.com/watch?v=''"
  shows "exec_from False pattern_mobile 0 s = None"
proof (cases "exec_from False pattern_mobile 0 s")
  case None
  then show ?thesis .
next
  case (Some st)
  obtain p rest captured where "st = (p, rest, captured)" by (cases st)
  with Some url_pattern_exec [of pattern_mobile s p rest captured]
  obtain u v x where "s = u @ ''m.youtube.com/watch?v='' @ v @ x"
    by (auto simp: YOUTUBE_URL_PATTERNS_def)
  then have "s = (u @ ''m.'') @ ''youtube.com/watch?v='' @ (v @ x)"
    by simp
  then have "js_includes s ''youtube.com/watch?v=''"
    using js_includes_append [of "u @ ''m.''" "''youtube.com/watch?v=''" "v @ x"] by simp
  with assms show ?thesis by simp
qed

lemma extractVideoId_standard:
  assumes "url_scheme scheme" and "url_www www" and "is_video_id v" and "query_tail_ok ''&?'' t"
  shows "extractVideoId (scheme @ www @ ''youtube.com/watch?v='' @ v @ t) = Some v"
proof -
  let ?s = "scheme @ www @ ''youtube.com/watch?v='' @ v @ t"
  from standard_exec [OF assms] obtain p where "exec_from False pattern_standard 0 ?s = Some (p, [], Some v)"
    by blast
  then have "first_match YOUTUBE_URL_PATTERNS ?s = Some v"
    by (simp add: YOUTUBE_URL_PATTERNS_def)
  moreover have "extractVideoId ?s = first_match YOUTUBE_URL_PATTERNS ?s"
    by (rule extractVideoId_url) simp_all
  ultimately show ?thesis by simp
qed

lemma extractVideoId_mobile:
  assumes "url_scheme scheme" and "is_video_id v" and "query_tail_ok ''&?'' t"
  shows "extractVideoId (scheme @ ''m.youtube.com/watch?v='' @ v @ t) = Some v"
proof -
  let ?s = "scheme @ ''m.youtube.com/watch?v='' @ v @ t"
  from mobile_exec [OF assms] obtain p where "exec_from False pattern_standard 0 ?s = Some (p, [], Some v)"
    by blast
  then have "first_match YOUTUBE_URL_PATTERNS ?s = Some v"
    by (simp add: YOUTUBE_URL_PATTERNS_def)
  moreover have "extractVideoId ?s = first_match YOUTUBE_URL_PATTERNS ?s"
    by (rule extractVideoId_url) simp_all
  ultimately show ?thesis by simp
qed

lemma extractVideoId_short:
  assumes "url_scheme scheme" and "url_www www" and "is_video_id v" and "query_tail_ok ''?'' t"
    and "\<not> js_includes (scheme @ www @ ''youtu.be/'' @ v @ t) ''youtube.com/watch?v=''"
  shows "extractVideoId (scheme @ www @ ''youtu.be/'' @ v @ t) = Some v"
proof -
  let ?s = "scheme @ www @ ''youtu.be/'' @ v @ t"
  from short_exec [OF assms(1-4)] obtain p where "exec_from False pattern_short 0 ?s = Some (p, [], Some v)"
    by blast
  then have "first_match YOUTUBE_URL_PATTERNS ?s = Some v"
    using standard_no_match [OF assms(5)] by (simp add: YOUTUBE_URL_PATTERNS_def)
  moreover have "extractVideoId ?s = first_match YOUTUBE_URL_PATTERNS ?s"
    by (rule extractVideoId_url) simp_all
  ultimately show ?thesis by simp
qed

lemma extractVideoId_embed:
  assumes "url_scheme scheme" and "url_www www" and "is_video_id v" and "query_tail_ok ''?'' t"
    and "\<not> js_includes (scheme @ www @ ''youtube.com/embed/'' @ v @ t) ''youtube.com/watch?v=''"
    and "\<not> js_includes (scheme @ www @ ''youtube.com/embed/'' @ v @ t) ''youtu.be/''"
  shows "extractVideoId (scheme @ www @ ''youtube.com/embed/'' @ v @ t) = Some v"
proof -
  let ?s = "scheme @ www @ ''youtube.com/embed/'' @ v @ t"
  from embed_exec [OF assms(1-4)] obtain p where "exec_from False pattern_embed 0 ?s = Some (p, [], Some v)"
    by blast
  then have "first_match YOUTUBE_URL_PATTERNS ?s = Some v"
    using standard_no_match [OF assms(5)] short_no_match [OF assms(6)]
    by (simp add: YOUTUBE_URL_PATTERNS_def)
  moreover have "extractVideoId ?s = first_match YOUTUBE_URL_PATTERNS ?s"
    by (rule extractVideoId_url) simp_all
  ultimately show ?thesis by simp
qed

lemma extractVideoId_None:
  assumes "trim input = [] \<or>
           (\<not> is_video_id input \<and> \<not> js_includes input ''youtube.com/watch?v='' \<and>
            \<not> js_includes input ''youtu.be/'' \<and> \<not> js_includes input ''youtube.com/embed/'')"
  shows "extractVideoId input = None"
proof (cases "trim input = []")
  case True
  then show ?thesis by (simp add: extractVideoId_def)
next
  case False
  with assms have h: "\<not> is_video_id input" "\<not> js_includes input ''youtube.com/watch?v=''"
      "\<not> js_includes input ''youtu.be/''" "\<not> js_includes input ''youtube.com/embed/''"
    by auto
  have "first_match YOUTUBE_URL_PATTERNS input = None"
    using standard_no_match [OF h(2)] short_no_match [OF h(3)] embed_no_match [OF h(4)]
      mobile_no_match [OF h(2)]
    by (simp add: YOUTUBE_URL_PATTERNS_def)
  with False h(1) show ?thesis
    by (simp add: extractVideoId_def bare_test)
qed

lemma extractVideoId_SomeD:
  assumes "extractVideoId input = Some w"
  shows "is_video_id w \<and> js_includes input w"
proof (cases "is_video_id input")
  case True
  with assms have "w = input"
    by (simp add: extractVideoId_def bare_test split: if_splits)
  with True show ?thesis by (simp add: js_includes_self)
next
  case False
  with assms have "first_match YOUTUBE_URL_PATTERNS input = Some w"
    by (simp add: extractVideoId_def bare_test split: if_splits)
  then obtain pattern p rest where pat: "pattern \<in> set YOUTUBE_URL_PATTERNS"
      "exec_from False pattern 0 input = Some (p, rest, Some w)"
    using first_match_SomeD by blast
  from url_pattern_exec [OF pat] obtain u x where "input = u @ pattern_host pattern @ w @ x" "is_video_id w"
    by auto
  moreover from this have "js_includes input w"
    using js_includes_append [of "u @ pattern_host pattern" w x] by simp
  ultimately show ?thesis by simp
qed

lemma extractVideoId_short_link_example:
  "extractVideoId ''https://youtu.be/dQw4w9WgXcQ?t=5'' = Some ''dQw4w9WgXcQ''"
  by code_simp

text \<open>
  Claim C4, as stated, fails in both directions. The patterns are anchored at the end of
  the input only, so a string that merely ends with a link yields an identifier; they are
  tried in the order standard, short, embed, mobile, so a short link whose query string
  ends with a watch link yields the identifier of the latter; and the watch pattern
  wants \<open>v\<close> as the first query parameter, so a watch URL with another parameter before
  \<open>v\<close> yields \<open>null\<close>.
\<close>

theorem extractVideoId_counterexample:
  "extractVideoId ''see youtu.be/dQw4w9WgXcQ'' = Some ''dQw4w9WgXcQ'' \<and>
   extractVideoId ''https://youtu.be/AAAAAAAAAAA?u=youtube.com/watch?v=BBBBBBBBBBB'' = Some ''BBBBBBBBBBB'' \<and>
   extractVideoId ''https://www.youtube.com/watch?feature=share&v=dQw4w9WgXcQ'' = None"
  by code_simp


text \<open>
  Claim C4, amended. \<open>extractVideoId\<close> returns a bare identifier (11 characters of
  \<open>[a-zA-Z0-9_-]\<close>) unchanged. With an optional \<open>http://\<close> or \<open>https://\<close>, an optional
  \<open>www.\<close>, an identifier \<open>v\<close> and a tail without line breaks that is empty or starts with
  \<open>&\<close> or \<open>?\<close> (watch, mobile), respectively \<open>?\<close> (short link, embed), it returns \<open>v\<close> for
  \<open>youtube.com/watch?v=\<close>\<open>v\<close> and \<open>m.youtube.com/watch?v=\<close>\<open>v\<close>; for \<open>youtu.be/\<close>\<open>v\<close> when the
  input does not contain \<open>youtube.com/watch?v=\<close>; and for \<open>youtube.com/embed/\<close>\<open>v\<close> when the
  input contains neither \<open>youtube.com/watch?v=\<close> nor \<open>youtu.be/\<close>. It returns \<open>null\<close> for
  a blank input and for an input that is not an identifier and contains none of
  \<open>youtube.com/watch?v=\<close>, \<open>youtu.be/\<close> and \<open>youtube.com/embed/\<close>. Whatever it returns
  is an identifier that occurs in the input. For \<open>https://youtu.be/dQw4w9WgXcQ?t=5\<close> it
  returns \<open>dQw4w9WgXcQ\<close>.
\<close>

theorem extractVideoId_shapes:
  assumes "is_video_id v" and "url_scheme scheme" and "url_www www"
  shows "extractVideoId v = Some v \<and>
     (query_tail_ok ''&?'' t \<longrightarrow>
        extractVideoId (scheme @ www @ ''youtube.com/watch?v='' @ v @ t) = Some v \<and>
        extractVideoId (scheme @ ''m.youtube.com/watch?v='' @ v @ t) = Some v) \<and>
     (query_tail_ok ''?'' t \<and>
      \<not> js_includes (scheme @ www @ ''youtu.be/'' @ v @ t) ''youtube.com/watch?v='' \<longrightarrow>
        extractVideoId (scheme @ www @ ''youtu.be/'' @ v @ t) = Some v) \<and>
     (query_tail_ok ''?'' t \<and>
      \<not> js_includes (scheme @ www @ ''youtube.com/embed/'' @ v @ t) ''youtube.com/watch?v='' \<and>
      \<not> js_includes (scheme @ www @ ''youtube.com/embed/'' @ v @ t) ''youtu.be/'' \<longrightarrow>
        extractVideoId (scheme @ www @ ''youtube.com/embed/'' @ v @ t) = Some v) \<and>
     (trim input = [] \<or>
      (\<not> is_video_id input \<and> \<not> js_includes input ''youtube.com/watch?v='' \<and>
       \<not> js_includes input ''youtu.be/'' \<and> \<not> js_includes input ''youtube.com/embed/'') \<longrightarrow>
        extractVideoId input = None) \<and>
     (extractVideoId input = Some w \<longrightarrow> is_video_id w \<and> js_includes input w) \<and>
     extractVideoId ''https://youtu.be/dQw4w9WgXcQ?t=5'' = Some ''dQw4w9WgXcQ''"
proof (intro conjI impI)
  show "extractVideoId v = Some v"
    using assms(1) by (rule extractVideoId_bare)
  show "extractVideoId (scheme @ www @ ''youtube.com/watch?v='' @ v @ t) = Some v"
    if "query_tail_ok ''&?'' t"
    using assms(2,3,1) that by (rule extractVideoId_standard)
  show "extractVideoId (scheme @ ''m.youtube.com/watch?v='' @ v @ t) = Some v"
    if "query_tail_ok ''&?'' t"
    using assms(2,1) that by (rule extractVideoId_mobile)
  show "extractVideoId (scheme @ www @ ''youtu.be/'' @ v @ t) = Some v"
    if "query_tail_ok ''?'' t \<and>
        \<not> js_includes (scheme @ www @ ''youtu.be/'' @ v @ t) ''youtube.com/watch?v=''"
    using extractVideoId_short [OF assms(2,3,1)] that by blast
  show "extractVideoId (scheme @ www @ ''youtube.com/embed/'' @ v @ t) = Some v"
    if "query_tail_ok ''?'' t \<and>
        \<not> js_includes (scheme @ www @ ''youtube.com/embed/'' @ v @ t) ''youtube.com/watch?v='' \<and>
        \<not> js_includes (scheme @ www @ ''youtube.com/embed/'' @ v @ t) ''youtu.be/''"
    using extractVideoId_embed [OF assms(2,3,1)] that by blast
  show "extractVideoId input = None"
    if "trim input = [] \<or>
        (\<not> is_video_id input \<and> \<not> js_includes input ''youtube.com/watch?v='' \<and>
         \<not> js_includes input ''youtu.be/'' \<and> \<not> js_includes input ''youtube.com/embed/'')"
    using that by (rule extractVideoId_None)
  show "is_video_id w" and "js_includes input w" if "extractVideoId input = Some w"
    using extractVideoId_SomeD [OF that] by simp_all
  show "extractVideoId ''https://youtu.be/dQw4w9WgXcQ?t=5'' = Some ''dQw4w9WgXcQ''"
    by (rule extractVideoId_short_link_example)
qed

theorem extractVideoId_shapes_witness:
  "extractVideoId ''dQw4w9WgXcQ'' = Some ''dQw4w9WgXcQ'' \<and>
   extractVideoId ''https://www.youtube.com/watch?v=dQw4w9WgXcQ&t=5'' = Some ''dQw4w9WgXcQ'' \<and>
   extractVideoId ''https://m.youtube.com/watch?v=dQw4w9WgXcQ&t=5'' = Some ''dQw4w9WgXcQ'' \<and>
   extractVideoId ''http://youtu.be/dQw4w9WgXcQ?t=5'' = Some ''dQw4w9WgXcQ'' \<and>
   extractVideoId ''http://youtube.com/embed/dQw4w9WgXcQ?t=5'' = Some ''dQw4w9WgXcQ'' \<and>
   extractVideoId ''not a link'' = None"
proof -
  have v: "is_video_id ''dQw4w9WgXcQ''"
    by (simp add: is_video_id_def in_class_def id_class_def code_unit_def)
  have s1: "url_scheme ''https://''" and s2: "url_scheme ''http://''"
    and w1: "url_www ''www.''" and w2: "url_www []"
    by (simp_all add: url_scheme_def url_www_def)
  have t1: "query_tail_ok ''&?'' ''&t=5''" and t2: "query_tail_ok ''?'' ''?t=5''"
    by (simp_all add: query_tail_ok_def line_terminator_def code_unit_def)
  have n1: "\<not> js_includes (''http://'' @ [] @ ''youtu.be/'' @ ''dQw4w9WgXcQ'' @ ''?t=5'') ''youtube.com/watch?v=''"
    by simp
  have n2: "\<not> js_includes (''http://'' @ [] @ ''youtube.com/embed/'' @ ''dQw4w9WgXcQ'' @ ''?t=5'') ''youtube.com/watch?v=''"
    by simp
  have n3: "\<not> js_includes (''http://'' @ [] @ ''youtube.com/embed/'' @ ''dQw4w9WgXcQ'' @ ''?t=5'') ''youtu.be/''"
    by simp
  have n4: "\<not> is_video_id ''not a link'' \<and> \<not> js_includes ''not a link'' ''youtube.com/watch?v='' \<and>
       \<not> js_includes ''not a link'' ''youtu.be/'' \<and> \<not> js_includes ''not a link'' ''youtube.com/embed/''"
    by (simp add: is_video_id_def)
  note a = extractVideoId_shapes [OF v s1 w1, where t = "''&t=5''" and input = "''not a link''"]
  note b = extractVideoId_shapes [OF v s2 w2, where t = "''?t=5''" and input = "''not a link''"]
  from a t1 have 1: "extractVideoId ''dQw4w9WgXcQ'' = Some ''dQw4w9WgXcQ''"
    and 2: "extractVideoId ''https://www.youtube.com/watch?v=dQw4w9WgXcQ&t=5'' = Some ''dQw4w9WgXcQ''"
    and 3: "extractVideoId ''https://m.youtube.com/watch?v=dQw4w9WgXcQ&t=5'' = Some ''dQw4w9WgXcQ''"
    by simp_all
  from b t2 n1 have 4: "extractVideoId ''http://youtu.be/dQw4w9WgXcQ?t=5'' = Some ''dQw4w9WgXcQ''"
    by simp
  from b t2 n2 n3 have 5: "extractVideoId ''http://youtube.com/embed/dQw4w9WgXcQ?t=5'' = Some ''dQw4w9WgXcQ''"
    by simp
  from a n4 have 6: "extractVideoId ''not a link'' = None"
    by blast
  from 1 2 3 4 5 6 show ?thesis by blast
qed

end
